theory Spec2Isabelle
  imports Main "HOL-Library.AList" "HOL-Library.Multiset"
    "HOL-Library.Char_ord" "HOL-Library.List_Lexorder"
begin

section \<open>JavaScript values that flow through the owner pipeline\<close>

text \<open>
  An owner slot of the program holds a string, \<^verbatim>\<open>null\<close> (the placeholder written by
  \<^verbatim>\<open>reorderNewOwners\<close> and the "not found" result of \<^verbatim>\<open>getPrevOwner\<close>) or
  \<^verbatim>\<open>undefined\<close> (a read of a missing property). Strict equality \<^verbatim>\<open>===\<close> on
  these values is equality of \<open>jsval\<close>.
\<close>

datatype jsval = Undefined | Null | Str string

text \<open>Truthiness, as used by \<^verbatim>\<open>!x\<close>, \<^verbatim>\<open>x || y\<close> and \<^verbatim>\<open>x && y\<close>: the empty string is falsy.\<close>

fun truthy :: "jsval \<Rightarrow> bool" where
  "truthy Undefined = False"
| "truthy Null = False"
| "truthy (Str s) = (s \<noteq> [])"

text \<open>A value used as a property key is converted to a string.\<close>

fun to_key :: "jsval \<Rightarrow> string" where
  "to_key Undefined = ''undefined''"
| "to_key Null = ''null''"
| "to_key (Str s) = s"

text \<open>
  A plain object with string keys is an association list in insertion order: writing an
  existing key keeps its place, writing a new key appends it, \<^verbatim>\<open>delete\<close> removes it
  (\<open>AList.update\<close>, \<open>AList.delete\<close>). \<^verbatim>\<open>Object.entries\<close> lists the pairs in that order;
  the keys of the owner list are addresses starting with \<^verbatim>\<open>0x\<close> (or \<^verbatim>\<open>null\<close>), never
  array indices, which JavaScript would list first.
\<close>

type_synonym obj = "(string \<times> jsval) list"

definition obj_get :: "obj \<Rightarrow> string \<Rightarrow> jsval" where
  "obj_get l k = (case map_of l k of None \<Rightarrow> Undefined | Some v \<Rightarrow> v)"

definition obj_set :: "obj \<Rightarrow> string \<Rightarrow> jsval \<Rightarrow> obj" where
  "obj_set l k v = AList.update k v l"

definition obj_delete :: "obj \<Rightarrow> string \<Rightarrow> obj" where
  "obj_delete l k = AList.delete k l"

section \<open>Owner alignment: \<^verbatim>\<open>reorderNewOwners\<close>\<close>

text \<open>
  \<^verbatim>\<open>new Set(newOwners)\<close>: the elements in order of first insertion. \<^verbatim>\<open>has\<close> is
  membership, \<^verbatim>\<open>delete\<close> is \<open>removeAll\<close>, \<^verbatim>\<open>Array.from\<close> is the list itself.
\<close>

fun set_add :: "string list \<Rightarrow> string \<Rightarrow> string list" where
  "set_add s x = (if x \<in> set s then s else s @ [x])"

definition new_Set :: "string list \<Rightarrow> string list" where
  "new_Set xs = foldl set_add [] xs"

text \<open>
  First loop of \<^verbatim>\<open>reorderNewOwners\<close>: position \<open>i\<close> of the result is \<open>currentOwners[i]\<close>
  when that owner is still in the set (and is then deleted from it), \<^verbatim>\<open>null\<close> otherwise.
\<close>

fun align_matching :: "string list \<Rightarrow> string list \<Rightarrow> jsval list \<times> string list" where
  "align_matching [] remaining = ([], remaining)"
| "align_matching (owner # rest) remaining =
     (if owner \<in> set remaining
      then (let (r, remaining') = align_matching rest (removeAll owner remaining)
            in (Str owner # r, remaining'))
      else (let (r, remaining') = align_matching rest remaining
            in (Null # r, remaining')))"

text \<open>
  Second loop: a falsy position takes the first remaining owner (\<^verbatim>\<open>shift\<close>) as long as
  one is left; once none is left the placeholder stays.
\<close>

fun fill_placeholders :: "jsval list \<Rightarrow> string list \<Rightarrow> jsval list \<times> string list" where
  "fill_placeholders [] remaining = ([], remaining)"
| "fill_placeholders (r # rs) remaining =
     (if \<not> truthy r \<and> length remaining > 0
      then (let (rs', remaining') = fill_placeholders rs (tl remaining)
            in (Str (hd remaining) # rs', remaining'))
      else (let (rs', remaining') = fill_placeholders rs remaining
            in (r # rs', remaining')))"

definition reorderNewOwners :: "string list \<Rightarrow> string list \<Rightarrow> jsval list" where
  "reorderNewOwners currentOwners newOwners =
     (let (reordered, remainingNewOwners) = align_matching currentOwners (new_Set newOwners);
          (reordered', remainingNewOwnersArray) = fill_placeholders reordered remainingNewOwners
      in reordered' @ map Str remainingNewOwnersArray)"

section \<open>Edit script: \<^verbatim>\<open>calculateEditOperations\<close>\<close>

datatype error =
    MissingRequiredParameters
  | InvalidSafeAddress string
  | InvalidAddress string
  | StateFetchFailed
  | InvalidFetchedOwner string
  | DuplicateAddresses
  | EditOperationsError
  | UnsupportedChainId string
  | ThresholdTooBig
  | DuplicateOwnerDetected string

datatype operation = Swap string jsval | Add jsval | Remove string

text \<open>
  The table \<open>dp\<close> is a list of \<open>m + 1\<close> rows of \<open>n + 1\<close> cells. Row \<open>0\<close> is
  \<open>0, 1, \<dots>, n\<close>; row \<open>i\<close> starts with \<open>i\<close> and each further cell is computed from the
  cell to its left and the two cells above, as the nested loops do.
  \<open>fill_row c ys prev left\<close> computes the cells \<open>dp[i][j..n]\<close> from the new owners
  \<open>ys = newOwners[j-1..]\<close>, the previous row from column \<open>j - 1\<close> on and \<open>left = dp[i][j-1]\<close>.
\<close>

fun fill_row :: "string \<Rightarrow> jsval list \<Rightarrow> nat list \<Rightarrow> nat \<Rightarrow> nat list" where
  "fill_row currentOwner [] prev left = []"
| "fill_row currentOwner (newOwner # ys) prev left =
     (let v = (if Str currentOwner = newOwner then prev ! 0
               else (let substitutionCost = prev ! 0 + 1;
                         insertionCost = left + 1;
                         deletionCost = prev ! 1 + 1
                     in min (min substitutionCost insertionCost) deletionCost))
      in v # fill_row currentOwner ys (tl prev) v)"

fun fill_rows :: "string list \<Rightarrow> jsval list \<Rightarrow> nat \<Rightarrow> nat list \<Rightarrow> nat list list" where
  "fill_rows [] newOwners i prev = []"
| "fill_rows (currentOwner # rest) newOwners i prev =
     (let row = i # fill_row currentOwner newOwners prev i
      in row # fill_rows rest newOwners (Suc i) row)"

definition dp_table :: "string list \<Rightarrow> jsval list \<Rightarrow> nat list list" where
  "dp_table currentOwners newOwners =
     (let row0 = [0 ..< Suc (length newOwners)]
      in row0 # fill_rows currentOwners newOwners 1 row0)"

text \<open>
  The backtracking loop. \<^verbatim>\<open>unshift\<close> puts each operation in front of those found so
  far. The indices only decrease from \<open>(m, n)\<close>, so every read is inside the table.
\<close>

function backtrack ::
  "nat list list \<Rightarrow> string list \<Rightarrow> jsval list \<Rightarrow> nat \<Rightarrow> nat \<Rightarrow> operation list \<Rightarrow> error + operation list"
where
  "backtrack dp currentOwners newOwners i j operations =
     (if i > 0 \<or> j > 0 then
        (if i > 0 \<and> j > 0 \<and> Str (currentOwners ! (i - 1)) = newOwners ! (j - 1) then
           backtrack dp currentOwners newOwners (i - 1) (j - 1) operations
         else if i > 0 \<and> j > 0 \<and> dp ! i ! j = dp ! (i - 1) ! (j - 1) + 1 then
           backtrack dp currentOwners newOwners (i - 1) (j - 1)
             (Swap (currentOwners ! (i - 1)) (newOwners ! (j - 1)) # operations)
         else if j > 0 \<and> dp ! i ! j = dp ! i ! (j - 1) + 1 then
           backtrack dp currentOwners newOwners i (j - 1) (Add (newOwners ! (j - 1)) # operations)
         else if i > 0 \<and> dp ! i ! j = dp ! (i - 1) ! j + 1 then
           backtrack dp currentOwners newOwners (i - 1) j (Remove (currentOwners ! (i - 1)) # operations)
         else Inl EditOperationsError)
      else Inr operations)"
  by pat_completeness auto
termination
  by (relation "measure (\<lambda>(dp, c, n, i, j, ops). i + j)") auto

declare backtrack.simps [simp del]

definition calculateEditOperations :: "string list \<Rightarrow> jsval list \<Rightarrow> error + operation list" where
  "calculateEditOperations currentOwners newOwners =
     backtrack (dp_table currentOwners newOwners) currentOwners newOwners
       (length currentOwners) (length newOwners) []"

section \<open>The simulated owner linked list\<close>

definition SENTINEL_OWNERS :: string where
  "SENTINEL_OWNERS = ''0x0000000000000000000000000000000000000001''"

definition buildOwnerLinkedList :: "string list \<Rightarrow> string \<Rightarrow> obj" where
  "buildOwnerLinkedList currentOwners sentinel =
     (let l0 = obj_set [] sentinel
                 (case currentOwners of [] \<Rightarrow> Str sentinel
                  | x # _ \<Rightarrow> if truthy (Str x) then Str x else Str sentinel);
          l1 = foldl (\<lambda>l (a, b). obj_set l a (Str b)) l0 (zip currentOwners (tl currentOwners))
      in if length currentOwners > 0 then obj_set l1 (last currentOwners) (Str sentinel) else l1)"

text \<open>\<^verbatim>\<open>getPrevOwner\<close>: the first key whose value is the owner, \<^verbatim>\<open>null\<close> when there is none.\<close>

fun getPrevOwner :: "string \<Rightarrow> obj \<Rightarrow> jsval" where
  "getPrevOwner owner [] = Null"
| "getPrevOwner owner ((key, val) # rest) =
     (if val = Str owner then Str key else getPrevOwner owner rest)"

text \<open>
  \<^verbatim>\<open>getLastOwner\<close> follows successors until the successor is falsy or the sentinel. On
  a list with a cycle that avoids the sentinel the loop never ends: the result is \<open>None\<close>.
\<close>

partial_function (option) getLastOwner :: "obj \<Rightarrow> string \<Rightarrow> string \<Rightarrow> string option" where
  "getLastOwner ownerLinkedList sentinel currentOwner =
     (case obj_get ownerLinkedList currentOwner of
        Str s \<Rightarrow> if s \<noteq> [] \<and> s \<noteq> sentinel then getLastOwner ownerLinkedList sentinel s
                 else Some currentOwner
      | _ \<Rightarrow> Some currentOwner)"

declare getLastOwner.simps [code]

definition updateOwnerLinkedList :: "string \<Rightarrow> jsval \<Rightarrow> obj \<Rightarrow> obj" where
  "updateOwnerLinkedList oldOwner newOwner ownerLinkedList =
     (let prevOwner = getPrevOwner oldOwner ownerLinkedList;
          l1 = obj_set ownerLinkedList (to_key prevOwner) newOwner;
          l2 = obj_set l1 (to_key newOwner) (obj_get l1 oldOwner)
      in obj_delete l2 oldOwner)"

section \<open>The output document\<close>

text \<open>
  The batch is a JSON document. \<open>JUndefined\<close> stands for a property that holds
  \<^verbatim>\<open>undefined\<close>, which \<^verbatim>\<open>JSON.stringify\<close> leaves out.
\<close>

datatype json =
    JUndefined | JNull | JBool bool | JNum int | JStr string
  | JArr "json list" | JObj "(string \<times> json) list"

fun json_of :: "jsval \<Rightarrow> json" where
  "json_of Undefined = JUndefined"
| "json_of Null = JNull"
| "json_of (Str s) = JStr s"

text \<open>Property read \<^verbatim>\<open>x.k\<close> on a document.\<close>

fun jget :: "json \<Rightarrow> string \<Rightarrow> json" where
  "jget (JObj kvs) k = (case map_of kvs k of None \<Rightarrow> JUndefined | Some v \<Rightarrow> v)"
| "jget _ k = JUndefined"

text \<open>
  \<^verbatim>\<open>threshold.toString()\<close>. A threshold is a JavaScript number; the model has the
  integer-valued ones, as \<^typ>\<open>int\<close>. For an integer of magnitude below \<^verbatim>\<open>2^53\<close>, which a
  number holds exactly, \<^verbatim>\<open>Number.prototype.toString\<close> writes the decimal digits with a sign.
  Beyond that range the digits depend on the rounding to a double (and from \<^verbatim>\<open>10^21\<close> on the
  exponent form is used): the model leaves that string unspecified. \<^verbatim>\<open>NaN\<close>, the
  infinities and fractions are not in the model.
\<close>

fun digits :: "nat \<Rightarrow> string" where
  "digits n = (if n < 10 then [''0123456789'' ! n]
               else digits (n div 10) @ [''0123456789'' ! (n mod 10)])"

declare digits.simps [simp del]

definition toString :: "int \<Rightarrow> string" where
  "toString n =
     (if \<bar>n\<bar> \<le> 9007199254740991
      then (if n < 0 then CHR ''-'' # digits (nat (- n)) else digits (nat n))
      else undefined)"

definition abi_input :: "string \<Rightarrow> string \<Rightarrow> json" where
  "abi_input nm ty = JObj [(''internalType'', JStr ty), (''name'', JStr nm), (''type'', JStr ty)]"

definition createSwapOwnerTransaction :: "string \<Rightarrow> string \<Rightarrow> jsval \<Rightarrow> obj \<Rightarrow> json" where
  "createSwapOwnerTransaction safeAddress oldOwner newOwner ownerLinkedList =
     JObj [(''to'', JStr safeAddress), (''value'', JStr ''0''), (''data'', JNull),
           (''contractMethod'', JObj
              [(''inputs'', JArr [abi_input ''prevOwner'' ''address'',
                                  abi_input ''oldOwner'' ''address'',
                                  abi_input ''newOwner'' ''address'']),
               (''name'', JStr ''swapOwner''), (''payable'', JBool False)]),
           (''contractInputsValues'', JObj
              [(''prevOwner'', json_of (getPrevOwner oldOwner ownerLinkedList)),
               (''oldOwner'', JStr oldOwner),
               (''newOwner'', json_of newOwner)])]"

definition createAddOwnerTransaction :: "string \<Rightarrow> jsval \<Rightarrow> int \<Rightarrow> json" where
  "createAddOwnerTransaction safeAddress newOwner threshold =
     JObj [(''to'', JStr safeAddress), (''value'', JStr ''0''), (''data'', JNull),
           (''contractMethod'', JObj
              [(''inputs'', JArr [abi_input ''owner'' ''address'',
                                  abi_input ''_threshold'' ''uint256'']),
               (''name'', JStr ''addOwnerWithThreshold''), (''payable'', JBool False)]),
           (''contractInputsValues'', JObj
              [(''owner'', json_of newOwner),
               (''_threshold'', JStr (toString threshold))])]"

definition createRemoveOwnerTransaction :: "string \<Rightarrow> string \<Rightarrow> int \<Rightarrow> obj \<Rightarrow> json" where
  "createRemoveOwnerTransaction safeAddress oldOwner threshold ownerLinkedList =
     JObj [(''to'', JStr safeAddress), (''value'', JStr ''0''), (''data'', JNull),
           (''contractMethod'', JObj
              [(''inputs'', JArr [abi_input ''prevOwner'' ''address'',
                                  abi_input ''owner'' ''address'',
                                  abi_input ''_threshold'' ''uint256'']),
               (''name'', JStr ''removeOwner''), (''payable'', JBool False)]),
           (''contractInputsValues'', JObj
              [(''prevOwner'', json_of (getPrevOwner oldOwner ownerLinkedList)),
               (''owner'', JStr oldOwner),
               (''_threshold'', JStr (toString threshold))])]"

definition createChangeThresholdTransaction :: "string \<Rightarrow> int \<Rightarrow> json" where
  "createChangeThresholdTransaction safeAddress newThreshold =
     JObj [(''to'', JStr safeAddress), (''value'', JStr ''0''), (''data'', JNull),
           (''contractMethod'', JObj
              [(''inputs'', JArr [abi_input ''_threshold'' ''uint256'']),
               (''name'', JStr ''changeThreshold''), (''payable'', JBool False)]),
           (''contractInputsValues'', JObj
              [(''_threshold'', JStr (toString newThreshold))])]"

section \<open>Assembling the batch\<close>

text \<open>
  The loop over the operations of \<^verbatim>\<open>generateTransactions\<close>. Its state is the list of
  transactions, the owner linked list and the flag \<^verbatim>\<open>hasAddOrRemove\<close>. Each transaction
  is created from the linked list as it is before the operation; the list is updated
  right after. The result is \<open>None\<close> when \<^verbatim>\<open>getLastOwner\<close> does not return.
\<close>

fun processOperations ::
  "string \<Rightarrow> int \<Rightarrow> operation list \<Rightarrow> json list \<Rightarrow> obj \<Rightarrow> bool \<Rightarrow> (json list \<times> obj \<times> bool) option"
where
  "processOperations safe threshold [] transactions ownerLinkedList hasAddOrRemove =
     Some (transactions, ownerLinkedList, hasAddOrRemove)"
| "processOperations safe threshold (Remove owner # ops) transactions ownerLinkedList hasAddOrRemove =
     (let tx = createRemoveOwnerTransaction safe owner threshold ownerLinkedList;
          prev = getPrevOwner owner ownerLinkedList;
          l1 = obj_set ownerLinkedList (to_key prev) (obj_get ownerLinkedList owner);
          l2 = obj_delete l1 owner
      in processOperations safe threshold ops (transactions @ [tx]) l2 True)"
| "processOperations safe threshold (Add owner # ops) transactions ownerLinkedList hasAddOrRemove =
     (let tx = createAddOwnerTransaction safe owner threshold
      in case getLastOwner ownerLinkedList SENTINEL_OWNERS SENTINEL_OWNERS of
           None \<Rightarrow> None
         | Some lastOwner \<Rightarrow>
             (let l1 = obj_set ownerLinkedList lastOwner owner;
                  l2 = obj_set l1 (to_key owner) (Str SENTINEL_OWNERS)
              in processOperations safe threshold ops (transactions @ [tx]) l2 True))"
| "processOperations safe threshold (Swap oldOwner newOwner # ops) transactions ownerLinkedList hasAddOrRemove =
     (let tx = createSwapOwnerTransaction safe oldOwner newOwner ownerLinkedList
      in processOperations safe threshold ops (transactions @ [tx])
           (updateOwnerLinkedList oldOwner newOwner ownerLinkedList) hasAddOrRemove)"

fun is_swap :: "operation \<Rightarrow> bool" where
  "is_swap (Swap _ _) = True"
| "is_swap _ = False"

text \<open>
  The part of \<^verbatim>\<open>generateTransactions\<close> between the duplicate check and the assembly of
  the JSON object: alignment, linked list, edit operations, the loop and the threshold
  adjustment. It returns the list \<^verbatim>\<open>transactions\<close>.
\<close>

definition buildTransactions ::
  "string \<Rightarrow> string list \<Rightarrow> string list \<Rightarrow> int \<Rightarrow> int \<Rightarrow> (error + json list) option"
where
  "buildTransactions safeAddressChecksum currentOwners validatedNewOwners threshold currentThreshold =
     (let reorderedNewOwners = reorderNewOwners currentOwners validatedNewOwners;
          ownerLinkedList = buildOwnerLinkedList currentOwners SENTINEL_OWNERS
      in case calculateEditOperations currentOwners reorderedNewOwners of
           Inl e \<Rightarrow> Some (Inl e)
         | Inr operations \<Rightarrow>
            (case processOperations safeAddressChecksum threshold operations [] ownerLinkedList False of
               None \<Rightarrow> None
             | Some (transactions, l, hasAddOrRemove) \<Rightarrow>
                 Some (Inr (if threshold \<noteq> currentThreshold
                               \<and> \<not> hasAddOrRemove \<and> list_ex is_swap operations
                            then transactions @ [createChangeThresholdTransaction safeAddressChecksum threshold]
                            else transactions))))"

text \<open>A view of a transaction: the method it calls and the argument values.\<close>

definition tx_call :: "json \<Rightarrow> json \<times> json" where
  "tx_call tx = (jget (jget tx ''contractMethod'') ''name'', jget tx ''contractInputsValues'')"

section \<open>Checksum: \<^verbatim>\<open>calculateChecksum\<close>\<close>

text \<open>
  \<^verbatim>\<open>JSON.stringify\<close> quotes a string with these escapes (characters are bytes here;
  every string of the batch is ASCII).
\<close>

definition hex_digit :: "nat \<Rightarrow> char" where
  "hex_digit n = ''0123456789abcdef'' ! n"

definition quote_char :: "char \<Rightarrow> string" where
  "quote_char c =
     (if c = CHR 0x08 then [CHR 0x5C, CHR ''b'']
      else if c = CHR 0x09 then [CHR 0x5C, CHR ''t'']
      else if c = CHR 0x0A then [CHR 0x5C, CHR ''n'']
      else if c = CHR 0x0C then [CHR 0x5C, CHR ''f'']
      else if c = CHR 0x0D then [CHR 0x5C, CHR ''r'']
      else if c = CHR 0x22 then [CHR 0x5C, CHR 0x22]
      else if c = CHR 0x5C then [CHR 0x5C, CHR 0x5C]
      else if (of_char c :: nat) < 0x20
        then [CHR 0x5C, CHR ''u'', CHR ''0'', CHR ''0'',
              hex_digit (of_char c div 16), hex_digit (of_char c mod 16)]
      else [c])"

definition quoteJSONString :: "string \<Rightarrow> string" where
  "quoteJSONString s = [CHR 0x22] @ concat (map quote_char s) @ [CHR 0x22]"

fun join_comma :: "string list \<Rightarrow> string" where
  "join_comma [] = []"
| "join_comma [x] = x"
| "join_comma (x # y # r) = x @ '','' @ join_comma (y # r)"

text \<open>
  \<^verbatim>\<open>JSON.stringify(value, K)\<close> with an array \<open>K\<close> as replacer: at \<^emph>\<open>every\<close> level of
  nesting an object is written with exactly the properties named in \<open>K\<close>, in the order
  of \<open>K\<close>; a property that is missing or \<^verbatim>\<open>undefined\<close> is left out. \<open>None\<close> is the result
  \<^verbatim>\<open>undefined\<close>; inside an array it is written \<^verbatim>\<open>null\<close>.
\<close>

function stringify :: "string list \<Rightarrow> json \<Rightarrow> string option" where
  "stringify K JUndefined = None"
| "stringify K JNull = Some ''null''"
| "stringify K (JBool b) = Some (if b then ''true'' else ''false'')"
| "stringify K (JNum n) = Some (toString n)"
| "stringify K (JStr s) = Some (quoteJSONString s)"
| "stringify K (JArr xs) =
     Some (''['' @ join_comma (map (\<lambda>x. case stringify K x of None \<Rightarrow> ''null'' | Some t \<Rightarrow> t) xs) @ '']'')"
| "stringify K (JObj kvs) =
     Some (''{'' @ join_comma (List.map_filter
              (\<lambda>k. case map_of kvs k of None \<Rightarrow> None
                    | Some v \<Rightarrow> (case stringify K v of None \<Rightarrow> None
                                 | Some t \<Rightarrow> Some (quoteJSONString k @ '':'' @ t))) K) @ ''}'')"
  by pat_completeness auto
termination
proof (relation "measure (\<lambda>(K, v). size v)", goal_cases)
  case 1
  show ?case by simp
next
  case (2 K xs x)
  then show ?case by (simp add: less_Suc_eq_le size_list_estimation')
next
  case (3 K kvs k v)
  have "map_of al k = Some v \<Longrightarrow> size v < Suc (size_list (size_prod (\<lambda>_. 0) size) al)"
    for al :: "(string \<times> json) list"
    by (induction al) (auto split: if_splits)
  with 3 show ?case by simp
qed

text \<open>
  \<^verbatim>\<open>JSON.parse(JSON.stringify(x))\<close> on a document: a copy without the properties that
  hold \<^verbatim>\<open>undefined\<close>, with \<^verbatim>\<open>undefined\<close> array elements turned into \<^verbatim>\<open>null\<close>.
\<close>

fun json_clone :: "json \<Rightarrow> json" where
  "json_clone (JArr xs) = JArr (map (\<lambda>x. if x = JUndefined then JNull else json_clone x) xs)"
| "json_clone (JObj kvs) =
     JObj (map (\<lambda>(k, v). (k, json_clone v)) (filter (\<lambda>(k, v). v \<noteq> JUndefined) kvs))"
| "json_clone v = v"

text \<open>Property write \<^verbatim>\<open>x.k = v\<close> and the nested write \<^verbatim>\<open>x.meta.checksum = v\<close>.\<close>

fun jset :: "json \<Rightarrow> string \<Rightarrow> json \<Rightarrow> json" where
  "jset (JObj kvs) k v = JObj (AList.update k v kvs)"
| "jset x k v = x"

definition set_meta_checksum :: "json \<Rightarrow> json \<Rightarrow> json" where
  "set_meta_checksum jsonData v =
     jset jsonData ''meta'' (jset (jget jsonData ''meta'') ''checksum'' v)"

fun object_keys :: "json \<Rightarrow> string list" where
  "object_keys (JObj kvs) = map fst kvs"
| "object_keys _ = []"

text \<open>
  The string that is hashed. \<^verbatim>\<open>Object.keys(dataForChecksum).sort()\<close> are the sorted
  top-level keys, passed as the replacer array.
\<close>

definition checksum_input :: "json \<Rightarrow> string" where
  "checksum_input jsonData =
     (let dataForChecksum = set_meta_checksum (json_clone jsonData) (JStr [])
      in case stringify (sort (object_keys dataForChecksum)) dataForChecksum of
           None \<Rightarrow> ''undefined'' | Some t \<Rightarrow> t)"

text \<open>The hash function of the \<^verbatim>\<open>keccak256\<close> package, as lower-case hex, is a parameter.\<close>

definition calculateChecksum :: "(string \<Rightarrow> string) \<Rightarrow> json \<Rightarrow> string" where
  "calculateChecksum keccak256_hex jsonData = ''0x'' @ keccak256_hex (checksum_input jsonData)"

section \<open>The entry point: \<^verbatim>\<open>generateTransactions\<close>\<close>

text \<open>
  The options object. A field that is absent is \<open>None\<close>; \<^verbatim>\<open>!x\<close> holds for an absent
  field and for the empty string, and for no array.
\<close>

record options =
  safeAddress :: "string option"
  newOwners :: "string list option"
  chainId :: "string option"
  newThreshold :: "int option"
  alchemyApiKey :: "string option"

fun not_given :: "string option \<Rightarrow> bool" where
  "not_given None = True"
| "not_given (Some s) = (s = [])"

text \<open>
  \<^verbatim>\<open>ethers.getAddress\<close> belongs to the \<^verbatim>\<open>ethers\<close> package: it is the parameter
  \<open>getAddress\<close>, which returns the checksum form of an address or \<open>None\<close> where the
  package throws. \<^verbatim>\<open>String.prototype.trim\<close> removes the white space and the line
  terminators of the Unicode standard at both ends of a string; it is the parameter
  \<open>trim\<close>, so that nothing below depends on which characters those are. The map over
  \<^verbatim>\<open>newOwners\<close> stops at the first string that is rejected; the message carries the string
  as it was given, not trimmed.
\<close>

fun validateNewOwners ::
  "(string \<Rightarrow> string option) \<Rightarrow> (string \<Rightarrow> string) \<Rightarrow> string list \<Rightarrow> error + string list"
where
  "validateNewOwners getAddress trim [] = Inr []"
| "validateNewOwners getAddress trim (addr # rest) =
     (case getAddress (trim addr) of
        None \<Rightarrow> Inl (InvalidAddress addr)
      | Some checksumAddress \<Rightarrow>
          (case validateNewOwners getAddress trim rest of
             Inl e \<Rightarrow> Inl e
           | Inr r \<Rightarrow> Inr (checksumAddress # r)))"

fun normalizeFetched :: "(string \<Rightarrow> string option) \<Rightarrow> string list \<Rightarrow> error + string list" where
  "normalizeFetched getAddress [] = Inr []"
| "normalizeFetched getAddress (addr # rest) =
     (case getAddress addr of
        None \<Rightarrow> Inl (InvalidFetchedOwner addr)
      | Some a \<Rightarrow>
          (case normalizeFetched getAddress rest of
             Inl e \<Rightarrow> Inl e
           | Inr r \<Rightarrow> Inr (a # r)))"

text \<open>
  The object \<^verbatim>\<open>jsonOutput\<close> of \<^verbatim>\<open>generateTransactions\<close>, with the given string in
  \<^verbatim>\<open>meta.checksum\<close> (empty until the checksum is calculated).
\<close>

definition batch_of :: "string \<Rightarrow> int \<Rightarrow> string \<Rightarrow> string \<Rightarrow> json list \<Rightarrow> json" where
  "batch_of chain_id now safeAddressChecksum checksum transactions =
     JObj [(''version'', JStr ''1.0''),
           (''chainId'', JStr chain_id),
           (''createdAt'', JNum now),
           (''meta'', JObj
              [(''name'', JStr ''Transactions Batch''),
               (''description'', JStr []),
               (''txBuilderVersion'', JStr ''1.0.0''),
               (''createdFromSafeAddress'', JStr safeAddressChecksum),
               (''createdFromOwnerAddress'', JStr []),
               (''checksum'', JStr checksum)]),
           (''transactions'', JArr transactions)]"

text \<open>
  The parameters besides the options stand for the world outside the program:
  \<open>getAddress\<close>, \<open>trim\<close>, the hash function, the clock value \<^verbatim>\<open>Date.now()\<close>, and \<open>chain\<close>, the
  answer of the two read calls \<^verbatim>\<open>getOwners\<close> and \<^verbatim>\<open>getThreshold\<close> (\<open>None\<close> when a call
  fails). The result is \<open>None\<close> when the function does not return, \<open>Some (Inl e)\<close>
  when it throws and \<open>Some (Inr batch)\<close> when it returns the batch.
\<close>

definition generateTransactions ::
  "(string \<Rightarrow> string option) \<Rightarrow> (string \<Rightarrow> string) \<Rightarrow> (string \<Rightarrow> string) \<Rightarrow> int
     \<Rightarrow> (string list \<times> int) option \<Rightarrow> options \<Rightarrow> (error + json) option"
where
  "generateTransactions getAddress trim keccak256_hex now chain opts =
     (if not_given (safeAddress opts) \<or> newOwners opts = None
         \<or> not_given (chainId opts) \<or> not_given (alchemyApiKey opts)
      then Some (Inl MissingRequiredParameters)
      else
        let safeAddr = (case safeAddress opts of Some s \<Rightarrow> s | None \<Rightarrow> []);
            owners = (case newOwners opts of Some os \<Rightarrow> os | None \<Rightarrow> []);
            chain_id = (case chainId opts of Some c \<Rightarrow> c | None \<Rightarrow> [])
        in case getAddress safeAddr of
          None \<Rightarrow> Some (Inl (InvalidSafeAddress safeAddr))
        | Some safeAddressChecksum \<Rightarrow>
        (case validateNewOwners getAddress trim owners of
          Inl e \<Rightarrow> Some (Inl e)
        | Inr validatedNewOwners \<Rightarrow>
        (case chain of
          None \<Rightarrow> Some (Inl StateFetchFailed)
        | Some (currentOwnersRaw, currentThreshold) \<Rightarrow>
        (case normalizeFetched getAddress currentOwnersRaw of
          Inl e \<Rightarrow> Some (Inl e)
        | Inr currentOwners \<Rightarrow>
          let threshold = (case newThreshold opts of Some t \<Rightarrow> t | None \<Rightarrow> currentThreshold)
          in if length (new_Set validatedNewOwners) \<noteq> length validatedNewOwners
             then Some (Inl DuplicateAddresses)
             else
               (case buildTransactions safeAddressChecksum currentOwners validatedNewOwners
                       threshold currentThreshold of
                  None \<Rightarrow> None
                | Some (Inl e) \<Rightarrow> Some (Inl e)
                | Some (Inr transactions) \<Rightarrow>
                    let jsonOutput = batch_of chain_id now safeAddressChecksum [] transactions;
                        checksum = calculateChecksum keccak256_hex jsonOutput
                    in Some (Inr (set_meta_checksum jsonOutput (JStr checksum))))))))"

text \<open>The calls of a result of \<open>buildTransactions\<close>, in order; none when there is no batch.\<close>

fun calls_of :: "(error + json list) option \<Rightarrow> (json \<times> json) list" where
  "calls_of (Some (Inr transactions)) = map tx_call transactions"
| "calls_of _ = []"

section \<open>Reference notions of the specification\<close>

text \<open>
  Replaying an operation on an owner set: a swap replaces the old owner with the new
  one, a remove deletes, an add inserts.
\<close>

fun replay_op :: "jsval set \<Rightarrow> operation \<Rightarrow> jsval set" where
  "replay_op owners (Swap oldOwner newOwner) = insert newOwner (owners - {Str oldOwner})"
| "replay_op owners (Remove owner) = owners - {Str owner}"
| "replay_op owners (Add owner) = insert owner owners"

definition replay :: "operation list \<Rightarrow> jsval set \<Rightarrow> jsval set" where
  "replay ops owners = foldl replay_op owners ops"

text \<open>
  The reference edit distance: the textbook recurrence on prefixes, with unit cost for
  a deletion, an insertion and a substitution and no cost for a match. \<open>lev xs ys i j\<close>
  is the distance between the first \<open>i\<close> elements of \<open>xs\<close> and the first \<open>j\<close> of \<open>ys\<close>.
\<close>

fun lev :: "'a list \<Rightarrow> 'a list \<Rightarrow> nat \<Rightarrow> nat \<Rightarrow> nat" where
  "lev xs ys 0 j = j"
| "lev xs ys (Suc i) 0 = Suc i"
| "lev xs ys (Suc i) (Suc j) =
     min (min (lev xs ys i (Suc j) + 1) (lev xs ys (Suc i) j + 1))
         (lev xs ys i j + (if xs ! i = ys ! j then 0 else 1))"

definition edit_distance :: "'a list \<Rightarrow> 'a list \<Rightarrow> nat" where
  "edit_distance xs ys = lev xs ys (length xs) (length ys)"

text \<open>
  The alignment rule of the specification, position by position. The desired owners
  that are not current owners keep their relative order; the holes are the positions of
  current owners that are not desired; the hole with \<open>k\<close> holes before it takes the
  \<open>k\<close>-th remaining desired owner, and keeps the placeholder when there is none.
\<close>

definition remaining_desired :: "string list \<Rightarrow> string list \<Rightarrow> string list" where
  "remaining_desired current desired = filter (\<lambda>x. x \<notin> set current) desired"

definition holes_before :: "string list \<Rightarrow> string list \<Rightarrow> nat \<Rightarrow> nat" where
  "holes_before current desired i = length (filter (\<lambda>x. x \<notin> set desired) (take i current))"

definition aligned_at :: "string list \<Rightarrow> string list \<Rightarrow> nat \<Rightarrow> jsval" where
  "aligned_at current desired i =
     (if current ! i \<in> set desired then Str (current ! i)
      else if holes_before current desired i < length (remaining_desired current desired)
        then Str (remaining_desired current desired ! holes_before current desired i)
      else Null)"

section \<open>The revision of \<^verbatim>\<open>lib/index.js\<close> with the \<^verbatim>\<open>rpcUrl\<close> option\<close>

text \<open>
  A second revision of \<^verbatim>\<open>lib/index.js\<close> compares the owner lists position by position
  instead of computing an edit script, accepts a custom RPC URL, and checks the threshold
  against the number of new owners. Its helpers \<^verbatim>\<open>getPrevOwner\<close>, \<^verbatim>\<open>getLastOwner\<close>,
  \<^verbatim>\<open>updateOwnerLinkedList\<close>, the four transaction constructors and \<^verbatim>\<open>calculateChecksum\<close>
  are the same text as above; the functions that differ carry the suffix \<open>_rpc\<close>.
\<close>

record options_rpc = options +
  rpcUrl :: "string option"

definition getRpcUrl :: "string \<Rightarrow> string option \<Rightarrow> string option \<Rightarrow> error + string" where
  "getRpcUrl chain_id alchemy customRpcUrl =
     (let key = (case alchemy of Some k \<Rightarrow> k | None \<Rightarrow> []);
          has_key = \<not> not_given alchemy
      in if \<not> not_given customRpcUrl then Inr (case customRpcUrl of Some u \<Rightarrow> u | None \<Rightarrow> [])
      else if chain_id = ''1'' then
        Inr (if has_key then ''https://eth-mainnet.g.alchemy.com/v2/'' @ key else ''https://rpc.ankr.com/eth'')
      else if chain_id = ''5'' then
        Inr (if has_key then ''https://eth-goerli.g.alchemy.com/v2/'' @ key else ''https://rpc.ankr.com/eth_goerli'')
      else if chain_id = ''11155111'' then
        Inr (if has_key then ''https://eth-sepolia.g.alchemy.com/v2/'' @ key else ''https://rpc.sepolia.org'')
      else if chain_id = ''137'' then
        Inr (if has_key then ''https://polygon-mainnet.g.alchemy.com/v2/'' @ key else ''https://polygon-rpc.com'')
      else if chain_id = ''80001'' then
        Inr (if has_key then ''https://polygon-mumbai.g.alchemy.com/v2/'' @ key
             else ''https://rpc-mumbai.maticvigil.com'')
      else if chain_id = ''1101'' then Inr ''https://rpc.ankr.com/polygon_zkevm''
      else if chain_id = ''56'' then Inr ''https://bsc-dataseed.binance.org/''
      else if chain_id = ''97'' then Inr ''https://data-seed-prebsc-1-s1.binance.org:8545/''
      else if chain_id = ''100'' then Inr ''https://rpc.gnosis.gateway.fm/''
      else if chain_id = ''43114'' then Inr ''https://api.avax.network/ext/bc/C/rpc''
      else if chain_id = ''43113'' then Inr ''https://api.avax-test.network/ext/bc/C/rpc''
      else if chain_id = ''250'' then Inr ''https://rpc.ftm.tools/''
      else if chain_id = ''4002'' then Inr ''https://rpc.testnet.fantom.network/''
      else if chain_id = ''10'' then
        Inr (if has_key then ''https://opt-mainnet.g.alchemy.com/v2/'' @ key else ''https://mainnet.optimism.io'')
      else if chain_id = ''420'' then
        Inr (if has_key then ''https://opt-goerli.g.alchemy.com/v2/'' @ key else ''https://goerli.optimism.io'')
      else if chain_id = ''42161'' then
        Inr (if has_key then ''https://arb-mainnet.g.alchemy.com/v2/'' @ key else ''https://arb1.arbitrum.io/rpc'')
      else if chain_id = ''421613'' then
        Inr (if has_key then ''https://arb-goerli.g.alchemy.com/v2/'' @ key
             else ''https://goerli-rollup.arbitrum.io/rpc'')
      else if chain_id = ''8453'' then Inr ''https://base.llamarpc.com''
      else Inl (UnsupportedChainId chain_id))"

text \<open>
  \<^verbatim>\<open>reorderNewOwners\<close> of this revision keeps the remaining owners in an array:
  \<^verbatim>\<open>includes\<close> is membership, \<^verbatim>\<open>splice(indexOf(owner), 1)\<close> removes the first occurrence.
  The second loop has no length check: \<^verbatim>\<open>shift\<close> on the empty array gives \<^verbatim>\<open>undefined\<close>.
\<close>

fun align_matching_rpc :: "string list \<Rightarrow> string list \<Rightarrow> jsval list \<times> string list" where
  "align_matching_rpc [] remaining = ([], remaining)"
| "align_matching_rpc (owner # rest) remaining =
     (if owner \<in> set remaining
      then (let (r, remaining') = align_matching_rpc rest (remove1 owner remaining)
            in (Str owner # r, remaining'))
      else (let (r, remaining') = align_matching_rpc rest remaining
            in (Null # r, remaining')))"

fun fill_placeholders_rpc :: "jsval list \<Rightarrow> string list \<Rightarrow> jsval list \<times> string list" where
  "fill_placeholders_rpc [] remaining = ([], remaining)"
| "fill_placeholders_rpc (r # rs) remaining =
     (if \<not> truthy r
      then (let (rs', remaining') = fill_placeholders_rpc rs (tl remaining)
            in ((case remaining of [] \<Rightarrow> Undefined | x # _ \<Rightarrow> Str x) # rs', remaining'))
      else (let (rs', remaining') = fill_placeholders_rpc rs remaining
            in (r # rs', remaining')))"

definition reorderNewOwners_rpc :: "string list \<Rightarrow> string list \<Rightarrow> jsval list" where
  "reorderNewOwners_rpc currentOwners newOwnersList =
     (let (reordered, remainingNewOwners) = align_matching_rpc currentOwners newOwnersList;
          (reordered', remainingNewOwners') = fill_placeholders_rpc reordered remainingNewOwners
      in reordered' @ map Str remainingNewOwners')"

text \<open>
  \<^verbatim>\<open>buildOwnerLinkedList\<close> of this revision reads \<^verbatim>\<open>currentOwners[0]\<close> and
  \<^verbatim>\<open>currentOwners[currentOwners.length - 1]\<close> without a guard: on the empty list both
  are \<^verbatim>\<open>undefined\<close>, and the second one is used as the key \<^verbatim>\<open>"undefined"\<close>.
\<close>

definition buildOwnerLinkedList_rpc :: "string list \<Rightarrow> string \<Rightarrow> obj" where
  "buildOwnerLinkedList_rpc currentOwners sentinel =
     (let l0 = obj_set [] sentinel (case currentOwners of [] \<Rightarrow> Undefined | x # _ \<Rightarrow> Str x);
          l1 = foldl (\<lambda>l (a, b). obj_set l a (Str b)) l0 (zip currentOwners (tl currentOwners))
      in obj_set l1 (to_key (case currentOwners of [] \<Rightarrow> Undefined | _ \<Rightarrow> Str (last currentOwners)))
           (Str sentinel))"

text \<open>
  The first loop of this revision walks both lists by index up to the longer length; a
  read past the end of a list is \<^verbatim>\<open>undefined\<close>. Its state is the set
  \<^verbatim>\<open>interimOwnersSet\<close> and the three lists \<^verbatim>\<open>swaps\<close>, \<^verbatim>\<open>ownersToRemove\<close>, \<^verbatim>\<open>ownersToAdd\<close>.
\<close>

type_synonym collected = "string list \<times> (string \<times> string) list \<times> string list \<times> string list"

fun collect_step :: "jsval \<Rightarrow> jsval \<Rightarrow> collected \<Rightarrow> error + collected" where
  "collect_step oldOwner newOwner (interim, swaps, ownersToRemove, ownersToAdd) =
     (if truthy oldOwner \<and> truthy newOwner then
        (if oldOwner \<noteq> newOwner then
           (if to_key newOwner \<in> set interim then Inl (DuplicateOwnerDetected (to_key newOwner))
            else Inr (set_add (removeAll (to_key oldOwner) interim) (to_key newOwner),
                      swaps @ [(to_key oldOwner, to_key newOwner)], ownersToRemove, ownersToAdd))
         else Inr (interim, swaps, ownersToRemove, ownersToAdd))
      else if truthy oldOwner \<and> \<not> truthy newOwner then
        Inr (removeAll (to_key oldOwner) interim, swaps, ownersToRemove @ [to_key oldOwner], ownersToAdd)
      else if \<not> truthy oldOwner \<and> truthy newOwner then
        (if to_key newOwner \<in> set interim then Inl (DuplicateOwnerDetected (to_key newOwner))
         else Inr (set_add interim (to_key newOwner), swaps, ownersToRemove,
                   ownersToAdd @ [to_key newOwner]))
      else Inr (interim, swaps, ownersToRemove, ownersToAdd))"

function collect_loop :: "string list \<Rightarrow> jsval list \<Rightarrow> collected \<Rightarrow> error + collected" where
  "collect_loop currentOwners newOwnersReordered st =
     (if currentOwners = [] \<and> newOwnersReordered = [] then Inr st
      else
        (let oldOwner = (case currentOwners of [] \<Rightarrow> Undefined | x # _ \<Rightarrow> Str x);
             newOwner = (case newOwnersReordered of [] \<Rightarrow> Undefined | y # _ \<Rightarrow> y)
         in case collect_step oldOwner newOwner st of
              Inl e \<Rightarrow> Inl e
            | Inr st' \<Rightarrow> collect_loop (tl currentOwners) (tl newOwnersReordered) st'))"
  by pat_completeness auto
termination
  by (relation "measure (\<lambda>(c, n, st). length c + length n)") (auto split: list.splits)

declare collect_loop.simps [simp del]

fun process_swaps :: "string \<Rightarrow> (string \<times> string) list \<Rightarrow> json list \<Rightarrow> obj \<Rightarrow> json list \<times> obj" where
  "process_swaps safe [] transactions ownerLinkedList = (transactions, ownerLinkedList)"
| "process_swaps safe ((oldOwner, newOwner) # rest) transactions ownerLinkedList =
     process_swaps safe rest
       (transactions @ [createSwapOwnerTransaction safe oldOwner (Str newOwner) ownerLinkedList])
       (updateOwnerLinkedList oldOwner (Str newOwner) ownerLinkedList)"

fun process_removals :: "string \<Rightarrow> int \<Rightarrow> string list \<Rightarrow> json list \<Rightarrow> obj \<Rightarrow> json list \<times> obj" where
  "process_removals safe threshold [] transactions ownerLinkedList = (transactions, ownerLinkedList)"
| "process_removals safe threshold (ownerToRemove # rest) transactions ownerLinkedList =
     (let tx = createRemoveOwnerTransaction safe ownerToRemove threshold ownerLinkedList;
          prev = getPrevOwner ownerToRemove ownerLinkedList;
          l1 = obj_set ownerLinkedList (to_key prev) (obj_get ownerLinkedList ownerToRemove);
          l2 = obj_delete l1 ownerToRemove
      in process_removals safe threshold rest (transactions @ [tx]) l2)"

fun process_additions ::
  "string \<Rightarrow> int \<Rightarrow> string list \<Rightarrow> json list \<Rightarrow> obj \<Rightarrow> (json list \<times> obj) option" where
  "process_additions safe threshold [] transactions ownerLinkedList = Some (transactions, ownerLinkedList)"
| "process_additions safe threshold (ownerToAdd # rest) transactions ownerLinkedList =
     (let tx = createAddOwnerTransaction safe (Str ownerToAdd) threshold
      in case getLastOwner ownerLinkedList SENTINEL_OWNERS SENTINEL_OWNERS of
           None \<Rightarrow> None
         | Some lastOwner \<Rightarrow>
             (let l1 = obj_set ownerLinkedList lastOwner (Str ownerToAdd);
                  l2 = obj_set l1 ownerToAdd (Str SENTINEL_OWNERS)
              in process_additions safe threshold rest (transactions @ [tx]) l2))"

definition buildTransactions_rpc ::
  "string \<Rightarrow> string list \<Rightarrow> string list \<Rightarrow> int \<Rightarrow> int \<Rightarrow> (error + json list) option"
where
  "buildTransactions_rpc safeAddressChecksum currentOwners validatedNewOwners threshold currentThreshold =
     (let newOwnersReordered = reorderNewOwners_rpc currentOwners validatedNewOwners;
          ownerLinkedList = buildOwnerLinkedList_rpc currentOwners SENTINEL_OWNERS
      in case collect_loop currentOwners newOwnersReordered (new_Set currentOwners, [], [], []) of
           Inl e \<Rightarrow> Some (Inl e)
         | Inr (interim, swaps, ownersToRemove, ownersToAdd) \<Rightarrow>
            (let (t1, l1) = process_swaps safeAddressChecksum swaps [] ownerLinkedList;
                 (t2, l2) = process_removals safeAddressChecksum threshold ownersToRemove t1 l1
             in case process_additions safeAddressChecksum threshold ownersToAdd t2 l2 of
                  None \<Rightarrow> None
                | Some (t3, l3) \<Rightarrow>
                    (let hasAddOrRemove = (ownersToRemove \<noteq> [] \<or> ownersToAdd \<noteq> [])
                     in Some (Inr (if threshold \<noteq> currentThreshold
                                      \<and> \<not> hasAddOrRemove \<and> length swaps > 0
                                   then t3 @ [createChangeThresholdTransaction safeAddressChecksum threshold]
                                   else t3)))))"

text \<open>
  The entry point of this revision. The API key is optional; the RPC URL is chosen
  before the state is read; the threshold is checked after the duplicate check.
\<close>

definition generateTransactions_rpc ::
  "(string \<Rightarrow> string option) \<Rightarrow> (string \<Rightarrow> string) \<Rightarrow> (string \<Rightarrow> string) \<Rightarrow> int
     \<Rightarrow> (string list \<times> int) option \<Rightarrow> options_rpc \<Rightarrow> (error + json) option"
where
  "generateTransactions_rpc getAddress trim keccak256_hex now chain opts =
     (if not_given (safeAddress opts) \<or> newOwners opts = None \<or> not_given (chainId opts)
      then Some (Inl MissingRequiredParameters)
      else
        let safeAddr = (case safeAddress opts of Some s \<Rightarrow> s | None \<Rightarrow> []);
            owners = (case newOwners opts of Some os \<Rightarrow> os | None \<Rightarrow> []);
            chain_id = (case chainId opts of Some c \<Rightarrow> c | None \<Rightarrow> [])
        in case getAddress safeAddr of
          None \<Rightarrow> Some (Inl (InvalidSafeAddress safeAddr))
        | Some safeAddressChecksum \<Rightarrow>
        (case validateNewOwners getAddress trim owners of
          Inl e \<Rightarrow> Some (Inl e)
        | Inr validatedNewOwners \<Rightarrow>
        (case getRpcUrl chain_id (alchemyApiKey opts) (rpcUrl opts) of
          Inl e \<Rightarrow> Some (Inl e)
        | Inr providerUrl \<Rightarrow>
        (case chain of
          None \<Rightarrow> Some (Inl StateFetchFailed)
        | Some (currentOwnersRaw, currentThreshold) \<Rightarrow>
        (case normalizeFetched getAddress currentOwnersRaw of
          Inl e \<Rightarrow> Some (Inl e)
        | Inr currentOwners \<Rightarrow>
          let threshold = (case newThreshold opts of Some t \<Rightarrow> t | None \<Rightarrow> currentThreshold)
          in if length (new_Set validatedNewOwners) \<noteq> length validatedNewOwners
             then Some (Inl DuplicateAddresses)
             else if threshold > int (length validatedNewOwners)
             then Some (Inl ThresholdTooBig)
             else
               (case buildTransactions_rpc safeAddressChecksum currentOwners validatedNewOwners
                       threshold currentThreshold of
                  None \<Rightarrow> None
                | Some (Inl e) \<Rightarrow> Some (Inl e)
                | Some (Inr transactions) \<Rightarrow>
                    let jsonOutput = batch_of chain_id now safeAddressChecksum [] transactions;
                        checksum = calculateChecksum keccak256_hex jsonOutput
                    in Some (Inr (set_meta_checksum jsonOutput (JStr checksum)))))))))"

section \<open>Views of the batch used in the statements\<close>

text \<open>The transactions of a batch document.\<close>

definition transactions_of :: "json \<Rightarrow> json list" where
  "transactions_of batch = (case jget batch ''transactions'' of JArr txs \<Rightarrow> txs | _ \<Rightarrow> [])"

text \<open>
  The owner arguments of a transaction, by role: the owner that leaves (\<open>oldOwner\<close> of
  \<open>swapOwner\<close>, \<open>owner\<close> of \<open>removeOwner\<close>) and the owner that enters (\<open>newOwner\<close> of
  \<open>swapOwner\<close>, \<open>owner\<close> of \<open>addOwnerWithThreshold\<close>).
\<close>

definition old_owner_args :: "json \<Rightarrow> json list" where
  "old_owner_args tx =
     (if fst (tx_call tx) = JStr ''swapOwner'' then [jget (snd (tx_call tx)) ''oldOwner'']
      else if fst (tx_call tx) = JStr ''removeOwner'' then [jget (snd (tx_call tx)) ''owner'']
      else [])"

definition new_owner_args :: "json \<Rightarrow> json list" where
  "new_owner_args tx =
     (if fst (tx_call tx) = JStr ''swapOwner'' then [jget (snd (tx_call tx)) ''newOwner'']
      else if fst (tx_call tx) = JStr ''addOwnerWithThreshold'' then [jget (snd (tx_call tx)) ''owner'']
      else [])"

text \<open>The owners that leave and the owners that enter, read off an operation list.\<close>

fun olds :: "operation list \<Rightarrow> string list" where
  "olds [] = []"
| "olds (Swap oldOwner newOwner # ops) = oldOwner # olds ops"
| "olds (Remove owner # ops) = owner # olds ops"
| "olds (Add owner # ops) = olds ops"

fun news :: "operation list \<Rightarrow> jsval list" where
  "news [] = []"
| "news (Swap oldOwner newOwner # ops) = newOwner # news ops"
| "news (Remove owner # ops) = news ops"
| "news (Add owner # ops) = owner # news ops"

text \<open>The normalised forms of a list of input strings under a normalisation \<open>g\<close>.\<close>

definition normalized :: "(string \<Rightarrow> string option) \<Rightarrow> string list \<Rightarrow> string set" where
  "normalized g xs = {a. \<exists>s \<in> set xs. g s = Some a}"

text \<open>The calls of a result of \<^verbatim>\<open>generateTransactions\<close>, in order; none when there is no batch.\<close>

fun batch_calls :: "(error + json) option \<Rightarrow> (json \<times> json) list" where
  "batch_calls (Some (Inr batch)) = map tx_call (transactions_of batch)"
| "batch_calls _ = []"

section \<open>The owner list as a sequence\<close>

text \<open>
  The linked list of the specification, as the sequence of owners in list order. A swap
  puts the new owner in the place of the old one, a remove takes the owner out, an add
  appends the owner at the end.
\<close>

fun apply_op :: "jsval list \<Rightarrow> operation \<Rightarrow> jsval list" where
  "apply_op owners (Swap oldOwner newOwner) = map (\<lambda>x. if x = Str oldOwner then newOwner else x) owners"
| "apply_op owners (Remove owner) = removeAll (Str owner) owners"
| "apply_op owners (Add owner) = owners @ [owner]"

definition owners_after :: "jsval list \<Rightarrow> operation list \<Rightarrow> jsval list" where
  "owners_after owners ops = foldl apply_op owners ops"

text \<open>
  The true predecessor of an owner: the element before it in the sequence, the sentinel
  for the first one; \<^verbatim>\<open>undefined\<close> when the owner is not in the sequence.
\<close>

fun predecessor_in :: "jsval \<Rightarrow> jsval list \<Rightarrow> jsval \<Rightarrow> jsval" where
  "predecessor_in prev [] x = Undefined"
| "predecessor_in prev (y # ys) x = (if y = x then prev else predecessor_in y ys x)"

definition true_predecessor :: "jsval list \<Rightarrow> string \<Rightarrow> jsval" where
  "true_predecessor owners x = predecessor_in (Str SENTINEL_OWNERS) owners (Str x)"

text \<open>
  The \<open>prevOwner\<close> each transaction of an operation list has to carry: the true
  predecessor of the affected owner in the sequence after the earlier operations. An
  add has no such argument.
\<close>

fun true_prevOwners :: "jsval list \<Rightarrow> operation list \<Rightarrow> json list" where
  "true_prevOwners owners [] = []"
| "true_prevOwners owners (Swap oldOwner newOwner # ops) =
     json_of (true_predecessor owners oldOwner)
       # true_prevOwners (apply_op owners (Swap oldOwner newOwner)) ops"
| "true_prevOwners owners (Remove owner # ops) =
     json_of (true_predecessor owners owner) # true_prevOwners (apply_op owners (Remove owner)) ops"
| "true_prevOwners owners (Add owner # ops) =
     JUndefined # true_prevOwners (apply_op owners (Add owner)) ops"

text \<open>
  Walking the simulated list: start at the sentinel and follow the successors until the
  sentinel comes back. The walk gives the owners it visits, in order; it gives \<open>None\<close>
  when a successor is not an address or when the sentinel does not come back within as
  many steps as the list has entries.
\<close>

fun follow :: "nat \<Rightarrow> obj \<Rightarrow> string \<Rightarrow> string \<Rightarrow> jsval list option" where
  "follow 0 l sentinel c = None"
| "follow (Suc n) l sentinel c =
     (case obj_get l c of
        Str s \<Rightarrow> if s = sentinel then Some []
                 else if s = [] then None
                 else (case follow n l sentinel s of None \<Rightarrow> None | Some r \<Rightarrow> Some (Str s # r))
      | _ \<Rightarrow> None)"

definition traverse :: "obj \<Rightarrow> string \<Rightarrow> jsval list option" where
  "traverse l sentinel = follow (length l) l sentinel sentinel"

section \<open>Properties\<close>

subsection \<open>The worked examples of the specification\<close>

text \<open>
  Claim C9, as the code has it. For current owners \<open>[A, B, C]\<close> and desired owners
  \<open>A, C, D\<close> with the threshold unchanged, the alignment keeps \<open>A\<close> at index 0 and \<open>C\<close> at
  index 2 and puts \<open>D\<close> into the hole at index 1; the edit script is the single
  operation swap \<open>B\<close> for \<open>D\<close>, and the batch is the single transaction
  \<open>swapOwner(A, B, D)\<close>, whose \<open>prevOwner\<close> is \<open>A\<close>. No remove and no add is emitted.
\<close>

theorem example_A_single_swap:
  "reorderNewOwners [''0xA'', ''0xB'', ''0xC''] [''0xA'', ''0xC'', ''0xD'']
       = [Str ''0xA'', Str ''0xD'', Str ''0xC'']
   \<and> calculateEditOperations [''0xA'', ''0xB'', ''0xC'']
        (reorderNewOwners [''0xA'', ''0xB'', ''0xC''] [''0xA'', ''0xC'', ''0xD''])
       = Inr [Swap ''0xB'' (Str ''0xD'')]
   \<and> calls_of (buildTransactions ''0x5afe'' [''0xA'', ''0xB'', ''0xC''] [''0xA'', ''0xC'', ''0xD''] 2 2) =
       [(JStr ''swapOwner'',
         JObj [(''prevOwner'', JStr ''0xA''), (''oldOwner'', JStr ''0xB''),
               (''newOwner'', JStr ''0xD'')])]"
  by code_simp

text \<open>
  Claim C9 as the specification words it fails: the batch for the example is not
  \<open>removeOwner(A, B, threshold)\<close> followed by \<open>addOwnerWithThreshold(D, threshold)\<close>.
\<close>

theorem example_A_counterexample:
  "calls_of (buildTransactions ''0x5afe'' [''0xA'', ''0xB'', ''0xC''] [''0xA'', ''0xC'', ''0xD''] 2 2) \<noteq>
     [(JStr ''removeOwner'',
       JObj [(''prevOwner'', JStr ''0xA''), (''owner'', JStr ''0xB''), (''_threshold'', JStr ''2'')]),
      (JStr ''addOwnerWithThreshold'',
       JObj [(''owner'', JStr ''0xD''), (''_threshold'', JStr ''2'')])]"
  by code_simp

text \<open>
  Claim C2 at Example B. For current owners \<open>[A, B]\<close>, the same desired owners and a
  threshold changed from 1 to 2 there is no operation, and the code emits an empty batch:
  the \<open>changeThreshold\<close> transaction is only appended when a swap exists.
\<close>

theorem example_B_empty_batch:
  "calculateEditOperations [''0xA'', ''0xB''] (reorderNewOwners [''0xA'', ''0xB''] [''0xA'', ''0xB'']) = Inr []
   \<and> buildTransactions ''0x5afe'' [''0xA'', ''0xB''] [''0xA'', ''0xB''] 2 1 = Some (Inr [])"
  by code_simp

text \<open>
  Claim C1 at a desired set smaller than the current one. For current owners \<open>[A, B]\<close>
  and the desired owner \<open>A\<close> the placeholder \<^verbatim>\<open>null\<close> stays in the aligned list, the edit
  script swaps \<open>B\<close> for \<^verbatim>\<open>null\<close>, and replaying it on \<open>{A, B}\<close> gives \<open>{A, null}\<close>, not
  \<open>{A}\<close>. The batch is \<open>swapOwner(A, B, null)\<close>.
\<close>

theorem shrinking_replay_differs:
  "reorderNewOwners [''0xA'', ''0xB''] [''0xA''] = [Str ''0xA'', Null]
   \<and> calculateEditOperations [''0xA'', ''0xB''] (reorderNewOwners [''0xA'', ''0xB''] [''0xA''])
       = Inr [Swap ''0xB'' Null]
   \<and> replay [Swap ''0xB'' Null] (Str ` set [''0xA'', ''0xB'']) = {Str ''0xA'', Null}
   \<and> replay [Swap ''0xB'' Null] (Str ` set [''0xA'', ''0xB'']) \<noteq> Str ` set [''0xA'']
   \<and> calls_of (buildTransactions ''0x5afe'' [''0xA'', ''0xB''] [''0xA''] 1 1) =
       [(JStr ''swapOwner'',
         JObj [(''prevOwner'', JStr ''0xA''), (''oldOwner'', JStr ''0xB''), (''newOwner'', JNull)])]"
proof -
  have 1: "reorderNewOwners [''0xA'', ''0xB''] [''0xA''] = [Str ''0xA'', Null]"
    by code_simp
  have 2: "calculateEditOperations [''0xA'', ''0xB''] [Str ''0xA'', Null] = Inr [Swap ''0xB'' Null]"
    by code_simp
  have 3: "replay [Swap ''0xB'' Null] (Str ` set [''0xA'', ''0xB'']) = {Str ''0xA'', Null}"
    by (auto simp: replay_def)
  have 4: "calls_of (buildTransactions ''0x5afe'' [''0xA'', ''0xB''] [''0xA''] 1 1) =
       [(JStr ''swapOwner'',
         JObj [(''prevOwner'', JStr ''0xA''), (''oldOwner'', JStr ''0xB''), (''newOwner'', JNull)])]"
    by code_simp
  have 5: "{Str ''0xA'', Null} \<noteq> Str ` set [''0xA'']" by auto
  show ?thesis using 1 2 3 4 5 by simp
qed

subsection \<open>The checksum\<close>

text \<open>
  Claim C8 at a batch and a tampered copy. The first batch swaps owner \<open>0xB\<close> for
  \<open>0xD\<close> on the safe \<open>0x5afe\<close>; the second swaps \<open>0xB\<close> for \<open>0xE\<close> on the safe \<open>0xbad\<close>.
  The two documents differ in nested fields of \<open>meta\<close> and of the transaction, yet the
  string that is hashed is the same for both, so the checksums are equal for every hash
  function: the replacer array of top-level keys removes every nested property, and
  \<open>meta\<close> and each transaction are written as empty objects.
\<close>

theorem checksum_misses_nested_fields:
  "batch_of ''1'' 1700 ''0x5afe'' []
     [createSwapOwnerTransaction ''0x5afe'' ''0xB'' (Str ''0xD'')
        (buildOwnerLinkedList [''0xA'', ''0xB'', ''0xC''] SENTINEL_OWNERS)]
   \<noteq> batch_of ''1'' 1700 ''0xbad'' []
     [createSwapOwnerTransaction ''0xbad'' ''0xB'' (Str ''0xE'')
        (buildOwnerLinkedList [''0xA'', ''0xB'', ''0xC''] SENTINEL_OWNERS)]
   \<and> checksum_input (batch_of ''1'' 1700 ''0x5afe'' []
     [createSwapOwnerTransaction ''0x5afe'' ''0xB'' (Str ''0xD'')
        (buildOwnerLinkedList [''0xA'', ''0xB'', ''0xC''] SENTINEL_OWNERS)])
     = checksum_input (batch_of ''1'' 1700 ''0xbad'' []
     [createSwapOwnerTransaction ''0xbad'' ''0xB'' (Str ''0xE'')
        (buildOwnerLinkedList [''0xA'', ''0xB'', ''0xC''] SENTINEL_OWNERS)])
   \<and> checksum_input (batch_of ''1'' 1700 ''0x5afe'' []
     [createSwapOwnerTransaction ''0x5afe'' ''0xB'' (Str ''0xD'')
        (buildOwnerLinkedList [''0xA'', ''0xB'', ''0xC''] SENTINEL_OWNERS)])
     = checksum_input (JObj [(''version'', JStr ''1.0''), (''chainId'', JStr ''1''),
         (''createdAt'', JNum 1700), (''meta'', JObj []),
         (''transactions'', JArr [JObj []])])
   \<and> calculateChecksum keccak256_hex (batch_of ''1'' 1700 ''0x5afe'' []
     [createSwapOwnerTransaction ''0x5afe'' ''0xB'' (Str ''0xD'')
        (buildOwnerLinkedList [''0xA'', ''0xB'', ''0xC''] SENTINEL_OWNERS)])
     = calculateChecksum keccak256_hex (batch_of ''1'' 1700 ''0xbad'' []
     [createSwapOwnerTransaction ''0xbad'' ''0xB'' (Str ''0xE'')
        (buildOwnerLinkedList [''0xA'', ''0xB'', ''0xC''] SENTINEL_OWNERS)])"
proof -
  let ?b1 = "batch_of ''1'' 1700 ''0x5afe'' []
     [createSwapOwnerTransaction ''0x5afe'' ''0xB'' (Str ''0xD'')
        (buildOwnerLinkedList [''0xA'', ''0xB'', ''0xC''] SENTINEL_OWNERS)]"
  let ?b2 = "batch_of ''1'' 1700 ''0xbad'' []
     [createSwapOwnerTransaction ''0xbad'' ''0xB'' (Str ''0xE'')
        (buildOwnerLinkedList [''0xA'', ''0xB'', ''0xC''] SENTINEL_OWNERS)]"
  let ?b0 = "JObj [(''version'', JStr ''1.0''), (''chainId'', JStr ''1''),
         (''createdAt'', JNum 1700), (''meta'', JObj []),
         (''transactions'', JArr [JObj []])]"
  have ne: "?b1 \<noteq> ?b2"
    by (simp add: batch_of_def)
  have e1: "checksum_input ?b1 = checksum_input ?b0"
    by code_simp
  have e2: "checksum_input ?b2 = checksum_input ?b0"
    by code_simp
  show ?thesis
    using ne e1 e2 by (simp add: calculateChecksum_def)
qed

subsection \<open>The edit script has minimal length\<close>

lemma lev_0_right [simp]: "lev xs ys i 0 = i"
  by (cases i) simp_all

lemma lev_step_del: "lev xs ys (Suc i) j \<le> lev xs ys i j + 1"
  by (cases j) simp_all

lemma lev_step_ins: "lev xs ys i (Suc j) \<le> lev xs ys i j + 1"
  by (cases i) simp_all

lemma lev_lip_i: "lev xs ys i j \<le> lev xs ys (Suc i) j + 1"
proof (induction j)
  case 0
  show ?case by simp
next
  case (Suc j)
  have a: "lev xs ys i (Suc j) \<le> lev xs ys i j + 1" by (rule lev_step_ins)
  from Suc a show ?case by (simp add: min_def)
qed

lemma lev_lip_j: "lev xs ys i j \<le> lev xs ys i (Suc j) + 1"
proof (induction i)
  case 0
  show ?case by simp
next
  case (Suc i)
  have a: "lev xs ys (Suc i) j \<le> lev xs ys i j + 1" by (rule lev_step_del)
  from Suc a show ?case by (simp add: min_def)
qed

lemma lev_match: "xs ! i = ys ! j \<Longrightarrow> lev xs ys (Suc i) (Suc j) = lev xs ys i j"
  using lev_lip_i[of xs ys i j] lev_lip_j[of xs ys i j] by (simp add: min_def)

lemma lev_mismatch:
  "xs ! i \<noteq> ys ! j \<Longrightarrow> lev xs ys (Suc i) (Suc j) =
     min (min (lev xs ys i j + 1) (lev xs ys (Suc i) j + 1)) (lev xs ys i (Suc j) + 1)"
  by (simp add: min_def)

lemma fill_row_lev:
  assumes "i < length cur" "c = cur ! i"
  shows "j0 \<le> length new \<Longrightarrow> ys = drop j0 new \<Longrightarrow>
         prev = map (lev (map Str cur) new i) [j0 ..< Suc (length new)] \<Longrightarrow>
         left = lev (map Str cur) new (Suc i) j0 \<Longrightarrow>
         fill_row c ys prev left = map (lev (map Str cur) new (Suc i)) [Suc j0 ..< Suc (length new)]"
proof (induction ys arbitrary: j0 prev left)
  case Nil
  then show ?case by simp
next
  case (Cons y ys)
  from Cons.prems have j0: "j0 < length new" by (cases "j0 < length new") auto
  have y: "y = new ! j0" and ys: "ys = drop (Suc j0) new"
    using Cons.prems(2) j0 by (simp_all add: Cons_nth_drop_Suc[symmetric])
  have u: "[j0 ..< Suc (length new)] = j0 # Suc j0 # [Suc (Suc j0) ..< Suc (length new)]"
    using j0 by (simp add: upt_conv_Cons del: upt_Suc)
  have u': "[Suc j0 ..< Suc (length new)] = Suc j0 # [Suc (Suc j0) ..< Suc (length new)]"
    using j0 by (simp add: upt_conv_Cons del: upt_Suc)
  have p0: "prev ! 0 = lev (map Str cur) new i j0"
    using Cons.prems(3) by (simp add: u del: upt_Suc)
  have p1: "prev ! 1 = lev (map Str cur) new i (Suc j0)"
    using Cons.prems(3) by (simp add: u del: upt_Suc)
  have tl: "tl prev = map (lev (map Str cur) new i) [Suc j0 ..< Suc (length new)]"
    using Cons.prems(3) by (simp add: u u' del: upt_Suc)
  have eq: "(map Str cur ! i = new ! j0) = (Str c = y)"
    using assms y by auto
  define v where "v = (if Str c = y then prev ! 0
               else min (min (prev ! 0 + 1) (left + 1)) (prev ! 1 + 1))"
  have v: "v = lev (map Str cur) new (Suc i) (Suc j0)"
  proof (cases "Str c = y")
    case True
    then show ?thesis using eq lev_match[of "map Str cur" i new j0] p0 by (simp add: v_def)
  next
    case False
    then show ?thesis using eq lev_mismatch[of "map Str cur" i new j0] p0 p1 Cons.prems(4)
      by (simp add: v_def)
  qed
  have "fill_row c (y # ys) prev left = v # fill_row c ys (tl prev) v"
    by (simp add: v_def Let_def)
  also have "fill_row c ys (tl prev) v = map (lev (map Str cur) new (Suc i)) [Suc (Suc j0) ..< Suc (length new)]"
    using Cons.IH[of "Suc j0" "tl prev" v] j0 ys tl v by simp
  finally show ?case using v by (simp add: u' del: upt_Suc)
qed


lemma fill_rows_lev:
  "i \<le> length cur \<Longrightarrow> rest = drop i cur \<Longrightarrow>
   prev = map (lev (map Str cur) new i) [0 ..< Suc (length new)] \<Longrightarrow>
   fill_rows rest new (Suc i) prev =
     map (\<lambda>i'. map (lev (map Str cur) new i') [0 ..< Suc (length new)]) [Suc i ..< Suc (length cur)]"
proof (induction rest arbitrary: i prev)
  case Nil
  then show ?case by simp
next
  case (Cons c rest)
  from Cons.prems have i: "i < length cur" by (cases "i < length cur") auto
  have c: "c = cur ! i" and rest: "rest = drop (Suc i) cur"
    using Cons.prems(2) i by (simp_all add: Cons_nth_drop_Suc[symmetric])
  have row: "fill_row c new prev (Suc i) =
             map (lev (map Str cur) new (Suc i)) [Suc 0 ..< Suc (length new)]"
    using fill_row_lev[OF i c, of 0 new new prev "Suc i"] Cons.prems(3) by simp
  have u: "[0 ..< Suc (length new)] = 0 # [Suc 0 ..< Suc (length new)]"
    by (simp add: upt_conv_Cons del: upt_Suc)
  have row': "Suc i # fill_row c new prev (Suc i) =
              map (lev (map Str cur) new (Suc i)) [0 ..< Suc (length new)]"
    unfolding row by (simp add: u del: upt_Suc)
  have u2: "[Suc i ..< Suc (length cur)] = Suc i # [Suc (Suc i) ..< Suc (length cur)]"
    using i by (simp add: upt_conv_Cons del: upt_Suc)
  show ?case
    using Cons.IH[of "Suc i", OF _ rest row'] i
    by (simp add: Let_def row' u2 del: upt_Suc)
qed

lemma dp_table_lev:
  "dp_table cur new =
     map (\<lambda>i. map (lev (map Str cur) new i) [0 ..< Suc (length new)]) [0 ..< Suc (length cur)]"
proof -
  have r0: "[0 ..< Suc (length new)] = map (lev (map Str cur) new 0) [0 ..< Suc (length new)]"
    by (simp add: map_idI del: upt_Suc)
  have u: "[0 ..< Suc (length cur)] = 0 # [Suc 0 ..< Suc (length cur)]"
    by (simp add: upt_conv_Cons del: upt_Suc)
  have "fill_rows cur new (Suc 0) [0 ..< Suc (length new)] =
     map (\<lambda>i'. map (lev (map Str cur) new i') [0 ..< Suc (length new)]) [Suc 0 ..< Suc (length cur)]"
    using fill_rows_lev[of 0 cur cur "[0 ..< Suc (length new)]" new] r0 by simp
  then show ?thesis
    unfolding dp_table_def Let_def using r0 by (simp add: u del: upt_Suc)
qed

lemma dp_table_nth:
  assumes "i \<le> length cur" "j \<le> length new"
  shows "dp_table cur new ! i ! j = lev (map Str cur) new i j"
proof -
  have "dp_table cur new ! i = map (lev (map Str cur) new i) [0 ..< Suc (length new)]"
    unfolding dp_table_lev using assms(1) by (simp del: upt_Suc add: less_Suc_eq_le)
  then show ?thesis using assms(2) by (simp del: upt_Suc add: less_Suc_eq_le)
qed


lemma backtrack_lev:
  assumes dp: "\<And>i j. i \<le> length cur \<Longrightarrow> j \<le> length new \<Longrightarrow>
                 dp ! i ! j = lev (map Str cur) new i j"
  shows "i \<le> length cur \<Longrightarrow> j \<le> length new \<Longrightarrow>
         \<exists>ops'. backtrack dp cur new i j ops = Inr (ops' @ ops)
                \<and> length ops' = lev (map Str cur) new i j"
proof (induction "i + j" arbitrary: i j ops rule: less_induct)
  case less
  let ?D = "lev (map Str cur) new"
  show ?case
  proof (cases "i > 0 \<or> j > 0")
    case False
    then show ?thesis by (simp add: backtrack.simps)
  next
    case nz: True
    show ?thesis
    proof (cases "i > 0 \<and> j > 0")
      case True
      then obtain i' j' where ij: "i = Suc i'" "j = Suc j'"
        by (cases i; cases j) auto
      have bounds: "i' \<le> length cur" "j' \<le> length new" "i' < length cur" "j' < length new"
        using less.prems ij by auto
      have nth: "map Str cur ! i' = Str (cur ! i')" using bounds by simp
      show ?thesis
      proof (cases "Str (cur ! i') = new ! j'")
        case m: True
        have D: "?D i j = ?D i' j'"
          using lev_match[of "map Str cur" i' new j'] nth m ij by simp
        obtain ops' where "backtrack dp cur new i' j' ops = Inr (ops' @ ops)"
            "length ops' = ?D i' j'"
          using less.hyps[of i' j' ops] bounds ij by auto
        then show ?thesis using m ij D by (subst backtrack.simps) simp
      next
        case nm: False
        have Dmin: "?D i j = min (min (?D i' j' + 1) (?D i j' + 1)) (?D i' j + 1)"
          using lev_mismatch[of "map Str cur" i' new j'] nth nm ij by simp
        have dps: "dp ! i ! j = ?D i j" "dp ! i' ! j' = ?D i' j'"
                  "dp ! i ! j' = ?D i j'" "dp ! i' ! j = ?D i' j"
          using dp less.prems bounds by auto
        consider (sub) "?D i j = ?D i' j' + 1"
          | (ins) "?D i j \<noteq> ?D i' j' + 1" "?D i j = ?D i j' + 1"
          | (del) "?D i j \<noteq> ?D i' j' + 1" "?D i j \<noteq> ?D i j' + 1" "?D i j = ?D i' j + 1"
          using Dmin by (auto simp: min_def split: if_splits)
        then show ?thesis
        proof cases
          case sub
          obtain ops' where "backtrack dp cur new i' j' (Swap (cur ! i') (new ! j') # ops)
                = Inr (ops' @ Swap (cur ! i') (new ! j') # ops)" "length ops' = ?D i' j'"
            using less.hyps[of i' j' "Swap (cur ! i') (new ! j') # ops"] bounds ij by auto
          then have "backtrack dp cur new i j ops = Inr ((ops' @ [Swap (cur ! i') (new ! j')]) @ ops)
                \<and> length (ops' @ [Swap (cur ! i') (new ! j')]) = ?D i j"
            using nm ij sub dps by (subst backtrack.simps) simp
          then show ?thesis by blast
        next
          case ins
          obtain ops' where "backtrack dp cur new i j' (Add (new ! j') # ops)
                = Inr (ops' @ Add (new ! j') # ops)" "length ops' = ?D i j'"
            using less.hyps[of i j' "Add (new ! j') # ops"] bounds less.prems ij by auto
          then have "backtrack dp cur new i j ops = Inr ((ops' @ [Add (new ! j')]) @ ops)
                \<and> length (ops' @ [Add (new ! j')]) = ?D i j"
            using nm ij ins dps by (subst backtrack.simps) simp
          then show ?thesis by blast
        next
          case del
          obtain ops' where "backtrack dp cur new i' j (Remove (cur ! i') # ops)
                = Inr (ops' @ Remove (cur ! i') # ops)" "length ops' = ?D i' j"
            using less.hyps[of i' j "Remove (cur ! i') # ops"] bounds less.prems ij by auto
          then have "backtrack dp cur new i j ops = Inr ((ops' @ [Remove (cur ! i')]) @ ops)
                \<and> length (ops' @ [Remove (cur ! i')]) = ?D i j"
            using nm ij del dps by (subst backtrack.simps) simp
          then show ?thesis by blast
        qed
      qed
    next
      case False
      with nz consider (i0) "i = 0" "j > 0" | (j0) "j = 0" "i > 0" by auto
      then show ?thesis
      proof cases
        case i0
        then obtain j' where j: "j = Suc j'" by (cases j) auto
        have dps: "dp ! 0 ! j = j" "dp ! 0 ! j' = j'"
          using dp[of 0 j] dp[of 0 j'] less.prems j by auto
        obtain ops' where "backtrack dp cur new 0 j' (Add (new ! j') # ops)
                = Inr (ops' @ Add (new ! j') # ops)" "length ops' = ?D 0 j'"
          using less.hyps[of 0 j' "Add (new ! j') # ops"] less.prems j i0 by auto
        then have "backtrack dp cur new i j ops = Inr ((ops' @ [Add (new ! j')]) @ ops)
                \<and> length (ops' @ [Add (new ! j')]) = ?D i j"
          using i0 j dps by (subst backtrack.simps) simp
        then show ?thesis by blast
      next
        case j0
        then obtain i' where i: "i = Suc i'" by (cases i) auto
        have dps: "dp ! i ! 0 = i" "dp ! i' ! 0 = i'"
          using dp[of i 0] dp[of i' 0] less.prems i by auto
        obtain ops' where "backtrack dp cur new i' 0 (Remove (cur ! i') # ops)
                = Inr (ops' @ Remove (cur ! i') # ops)" "length ops' = ?D i' 0"
          using less.hyps[of i' 0 "Remove (cur ! i') # ops"] less.prems i j0 by auto
        then have "backtrack dp cur new i j ops = Inr ((ops' @ [Remove (cur ! i')]) @ ops)
                \<and> length (ops' @ [Remove (cur ! i')]) = ?D i j"
          using j0 i dps by (subst backtrack.simps) simp
        then show ?thesis by blast
      qed
    qed
  qed
qed

text \<open>
  Claim C5. For every current owner sequence and every aligned sequence,
  \<^verbatim>\<open>calculateEditOperations\<close> returns (it never reaches its error branch), and the number
  of operations it returns is the unit-cost edit distance between the two sequences, as
  given by the reference recurrence \<open>lev\<close>.
\<close>

theorem operation_count_is_edit_distance:
  "\<exists>ops. calculateEditOperations current aligned = Inr ops
         \<and> length ops = edit_distance (map Str current) aligned"
  using backtrack_lev[of current aligned "dp_table current aligned"
          "length current" "length aligned" "[]", OF dp_table_nth]
  by (simp add: calculateEditOperations_def edit_distance_def)

subsection \<open>Owner alignment\<close>

lemma foldl_set_add_distinct:
  "distinct (acc @ xs) \<Longrightarrow> foldl set_add acc xs = acc @ xs"
  by (induction xs arbitrary: acc) auto

lemma new_Set_distinct: "distinct xs \<Longrightarrow> new_Set xs = xs"
  using foldl_set_add_distinct[of "[]" xs] by (simp add: new_Set_def)

lemma align_matching_closed:
  "distinct current \<Longrightarrow>
   align_matching current remaining =
     (map (\<lambda>x. if x \<in> set remaining then Str x else Null) current,
      filter (\<lambda>x. x \<notin> set current) remaining)"
proof (induction current arbitrary: remaining)
  case Nil
  show ?case by simp
next
  case (Cons owner rest)
  have m: "map (\<lambda>x. if x \<in> set (removeAll owner remaining) then Str x else Null) rest
         = map (\<lambda>x. if x \<in> set remaining then Str x else Null) rest"
    using Cons.prems by (intro map_cong) auto
  have f: "filter (\<lambda>x. x \<notin> set rest) (removeAll owner remaining)
         = filter (\<lambda>x. x \<notin> set (owner # rest)) remaining"
    by (induction remaining) auto
  have f': "owner \<notin> set remaining \<Longrightarrow> filter (\<lambda>x. x \<notin> set rest) remaining
         = filter (\<lambda>x. x \<notin> set (owner # rest)) remaining"
    by (intro filter_cong) auto
  show ?case
    using Cons.IH[of "removeAll owner remaining"] Cons.IH[of remaining] Cons.prems m f f'
    by (auto simp del: set_removeAll)
qed

lemma fill_placeholders_closed:
  assumes "\<And>x. x \<in> set current \<Longrightarrow> P x \<Longrightarrow> x \<noteq> []"
  shows "fill_placeholders (map (\<lambda>x. if P x then Str x else Null) current) remaining =
     (map (\<lambda>i. if P (current ! i) then Str (current ! i)
                else if length (filter (\<lambda>x. \<not> P x) (take i current)) < length remaining
                  then Str (remaining ! length (filter (\<lambda>x. \<not> P x) (take i current)))
                else Null) [0 ..< length current],
      drop (length (filter (\<lambda>x. \<not> P x) current)) remaining)"
  using assms
proof (induction current arbitrary: remaining)
  case Nil
  show ?case by simp
next
  case (Cons c cs)
  have cs: "\<And>x. x \<in> set cs \<Longrightarrow> P x \<Longrightarrow> x \<noteq> []" and c: "P c \<Longrightarrow> c \<noteq> []"
    using Cons.prems by auto
  note IH = Cons.IH[OF cs]
  have upt: "[0 ..< Suc (length cs)] = 0 # map Suc [0 ..< length cs]"
    by (simp add: map_Suc_upt upt_conv_Cons del: upt_Suc)
  show ?case
  proof (cases "P c")
    case True
    then show ?thesis using c IH[of remaining] by (simp add: upt comp_def del: upt_Suc)
  next
    case nP: False
    show ?thesis
    proof (cases remaining)
      case Nil
      then show ?thesis using nP IH[of "[]"] by (simp add: upt comp_def del: upt_Suc)
    next
      case (Cons r rs)
      then show ?thesis using nP IH[of rs] by (simp add: upt comp_def del: upt_Suc)
    qed
  qed
qed


lemma reorderNewOwners_closed:
  assumes "distinct current" "distinct desired" "[] \<notin> set desired"
  shows "reorderNewOwners current desired =
           map (aligned_at current desired) [0 ..< length current]
           @ map Str (drop (holes_before current desired (length current))
                           (remaining_desired current desired))"
proof -
  have a: "align_matching current (new_Set desired) =
     (map (\<lambda>x. if x \<in> set desired then Str x else Null) current, remaining_desired current desired)"
    using assms by (simp add: align_matching_closed new_Set_distinct remaining_desired_def)
  have ne: "\<And>x. x \<in> set current \<Longrightarrow> x \<in> set desired \<Longrightarrow> x \<noteq> []"
    using assms(3) by auto
  show ?thesis
    unfolding reorderNewOwners_def a
    using fill_placeholders_closed[of current "\<lambda>x. x \<in> set desired" "remaining_desired current desired", OF ne]
    by (simp add: aligned_at_def holes_before_def cong: map_cong)
qed

lemma align_matching_mset:
  "distinct remaining \<Longrightarrow> align_matching current remaining = (r, remaining') \<Longrightarrow>
   mset (filter (\<lambda>v. v \<noteq> Null) r) + mset (map Str remaining') = mset (map Str remaining)"
proof (induction current arbitrary: remaining r remaining')
  case Nil
  then show ?case by simp
next
  case (Cons owner rest)
  show ?case
  proof (cases "owner \<in> set remaining")
    case True
    obtain r1 rem1 where rec: "align_matching rest (removeAll owner remaining) = (r1, rem1)"
      by (cases "align_matching rest (removeAll owner remaining)")
    have d: "distinct (removeAll owner remaining)" using Cons.prems(1) by (simp add: distinct_removeAll)
    have "mset (removeAll owner remaining) + {#owner#} = mset remaining"
      using True Cons.prems(1) by (simp add: distinct_remove1_removeAll[symmetric])
    then have m: "mset (map Str (removeAll owner remaining)) + {#Str owner#} = mset (map Str remaining)"
      by (metis image_mset_add_mset image_mset_single mset_map image_mset_union add_mset_add_single)
    from Cons.IH[OF d rec] Cons.prems(2) True rec m show ?thesis
      by (auto simp: ac_simps)
  next
    case False
    obtain r1 rem1 where rec: "align_matching rest remaining = (r1, rem1)"
      by (cases "align_matching rest remaining")
    from Cons.IH[OF Cons.prems(1) rec] Cons.prems(2) False rec show ?thesis by auto
  qed
qed

lemma fill_placeholders_mset:
  "\<forall>v\<in>set rs. v = Null \<or> truthy v \<Longrightarrow> fill_placeholders rs remaining = (rs', remaining') \<Longrightarrow>
   mset (filter (\<lambda>v. v \<noteq> Null) rs') + mset (map Str remaining')
     = mset (filter (\<lambda>v. v \<noteq> Null) rs) + mset (map Str remaining)"
proof (induction rs arbitrary: remaining rs' remaining')
  case Nil
  then show ?case by simp
next
  case (Cons r rs)
  show ?case
  proof (cases "\<not> truthy r \<and> length remaining > 0")
    case True
    then obtain x xs where rem: "remaining = x # xs" by (cases remaining) auto
    obtain r1 rem1 where rec: "fill_placeholders rs xs = (r1, rem1)"
      by (cases "fill_placeholders rs xs")
    have rN: "r = Null" using True Cons.prems(1) by auto
    from Cons.IH[OF _ rec] Cons.prems rem rec rN show ?thesis by auto
  next
    case False
    obtain r1 rem1 where rec: "fill_placeholders rs remaining = (r1, rem1)"
      by (cases "fill_placeholders rs remaining")
    from Cons.IH[OF _ rec] Cons.prems rec False show ?thesis by auto
  qed
qed

lemma fill_placeholders_Null:
  "\<forall>v\<in>set rs. v = Null \<or> truthy v \<Longrightarrow> fill_placeholders rs remaining = (rs', remaining') \<Longrightarrow>
   (Null \<in> set rs') = (length remaining < count_list rs Null)"
proof (induction rs arbitrary: remaining rs' remaining')
  case Nil
  then show ?case by simp
next
  case (Cons r rs)
  show ?case
  proof (cases "\<not> truthy r \<and> length remaining > 0")
    case True
    then obtain x xs where rem: "remaining = x # xs" by (cases remaining) auto
    obtain r1 rem1 where rec: "fill_placeholders rs xs = (r1, rem1)"
      by (cases "fill_placeholders rs xs")
    have rN: "r = Null" using True Cons.prems(1) by auto
    from Cons.IH[OF _ rec] Cons.prems rem rec rN show ?thesis by auto
  next
    case False
    obtain r1 rem1 where rec: "fill_placeholders rs remaining = (r1, rem1)"
      by (cases "fill_placeholders rs remaining")
    from Cons.IH[OF _ rec] Cons.prems rec False show ?thesis by (cases r) auto
  qed
qed


lemma count_list_align:
  "count_list (map (\<lambda>x. if P x then Str x else Null) current) Null
     = length (filter (\<lambda>x. \<not> P x) current)"
  by (induction current) auto

lemma common_length:
  assumes "distinct current" "distinct desired"
  shows "length (filter (\<lambda>x. x \<in> set desired) current) = length (filter (\<lambda>x. x \<in> set current) desired)"
proof -
  have 1: "card (set (filter (\<lambda>x. x \<in> set desired) current)) = length (filter (\<lambda>x. x \<in> set desired) current)"
    by (rule distinct_card) (simp add: assms(1))
  have 2: "card (set (filter (\<lambda>x. x \<in> set current) desired)) = length (filter (\<lambda>x. x \<in> set current) desired)"
    by (rule distinct_card) (simp add: assms(2))
  have 3: "set (filter (\<lambda>x. x \<in> set desired) current) = set (filter (\<lambda>x. x \<in> set current) desired)"
    by auto
  show ?thesis using 1 2 3 by metis
qed

lemma reorderNewOwners_parts:
  assumes "distinct current" "distinct desired" "[] \<notin> set desired"
  obtains rs' remaining' where
    "fill_placeholders (map (\<lambda>x. if x \<in> set desired then Str x else Null) current)
        (remaining_desired current desired) = (rs', remaining')"
    "reorderNewOwners current desired = rs' @ map Str remaining'"
proof -
  have a: "align_matching current (new_Set desired) =
     (map (\<lambda>x. if x \<in> set desired then Str x else Null) current, remaining_desired current desired)"
    using assms by (simp add: align_matching_closed new_Set_distinct remaining_desired_def)
  obtain rs' remaining' where f: "fill_placeholders (map (\<lambda>x. if x \<in> set desired then Str x else Null) current)
        (remaining_desired current desired) = (rs', remaining')"
    by (cases "fill_placeholders (map (\<lambda>x. if x \<in> set desired then Str x else Null) current)
        (remaining_desired current desired)")
  have "reorderNewOwners current desired = rs' @ map Str remaining'"
    by (simp add: reorderNewOwners_def a f)
  with f that show ?thesis by blast
qed

lemma reorderNewOwners_mset:
  assumes "distinct current" "distinct desired" "[] \<notin> set desired"
  shows "mset (filter (\<lambda>v. v \<noteq> Null) (reorderNewOwners current desired)) = mset (map Str desired)"
proof -
  let ?r = "map (\<lambda>x. if x \<in> set desired then Str x else Null) current"
  obtain rs' remaining' where f: "fill_placeholders ?r (remaining_desired current desired) = (rs', remaining')"
    and out: "reorderNewOwners current desired = rs' @ map Str remaining'"
    using reorderNewOwners_parts[OF assms] by blast
  have a: "align_matching current desired = (?r, remaining_desired current desired)"
    using assms by (simp add: align_matching_closed remaining_desired_def)
  have ok: "\<forall>v\<in>set ?r. v = Null \<or> truthy v" using assms(3) by auto
  have 1: "mset (filter (\<lambda>v. v \<noteq> Null) ?r) + mset (map Str (remaining_desired current desired))
           = mset (map Str desired)"
    using align_matching_mset[OF assms(2) a] .
  have 2: "mset (filter (\<lambda>v. v \<noteq> Null) rs') + mset (map Str remaining')
           = mset (filter (\<lambda>v. v \<noteq> Null) ?r) + mset (map Str (remaining_desired current desired))"
    using fill_placeholders_mset[OF ok f] .
  have 3: "filter (\<lambda>v. v \<noteq> Null) (map Str remaining') = map Str remaining'"
    by (induction remaining') auto
  show ?thesis unfolding out using 1 2 3 by simp
qed

lemma reorderNewOwners_Null:
  assumes "distinct current" "distinct desired" "[] \<notin> set desired"
  shows "(Null \<in> set (reorderNewOwners current desired)) = (length desired < length current)"
proof -
  let ?r = "map (\<lambda>x. if x \<in> set desired then Str x else Null) current"
  obtain rs' remaining' where f: "fill_placeholders ?r (remaining_desired current desired) = (rs', remaining')"
    and out: "reorderNewOwners current desired = rs' @ map Str remaining'"
    using reorderNewOwners_parts[OF assms] by blast
  have ok: "\<forall>v\<in>set ?r. v = Null \<or> truthy v" using assms(3) by auto
  have 1: "(Null \<in> set rs') = (length (remaining_desired current desired) < count_list ?r Null)"
    using fill_placeholders_Null[OF ok f] .
  have 2: "count_list ?r Null = length (filter (\<lambda>x. x \<notin> set desired) current)"
    by (rule count_list_align)
  have 3: "length current = length (filter (\<lambda>x. x \<in> set desired) current)
                          + length (filter (\<lambda>x. x \<notin> set desired) current)"
    using sum_length_filter_compl[of "\<lambda>x. x \<in> set desired" current] by simp
  have 4: "length desired = length (filter (\<lambda>x. x \<in> set current) desired)
                          + length (remaining_desired current desired)"
    using sum_length_filter_compl[of "\<lambda>x. x \<in> set current" desired]
    by (simp add: remaining_desired_def)
  have 5: "Null \<notin> set (map Str remaining')" by auto
  show ?thesis
    unfolding out using 1 2 3 4 5 common_length[OF assms(1,2)] by auto
qed

text \<open>
  Claim C4, as the code has it. For duplicate-free lists of non-empty addresses the
  output of the alignment is given position by position by \<open>aligned_at\<close>: an owner
  present in both lists stays at its current index, the holes are filled from left to
  right with the remaining desired owners in their original order, and the owners left
  over are appended. The entries that are not the placeholder form the same multiset as
  the desired owners. The placeholder \<^verbatim>\<open>null\<close> stays in the output exactly when there are
  fewer desired owners than current owners.
\<close>

theorem alignment_rule:
  assumes "distinct current" "distinct desired" "[] \<notin> set desired"
  shows "reorderNewOwners current desired =
           map (aligned_at current desired) [0 ..< length current]
           @ map Str (drop (holes_before current desired (length current))
                           (remaining_desired current desired))
       \<and> mset (filter (\<lambda>v. v \<noteq> Null) (reorderNewOwners current desired)) = mset (map Str desired)
       \<and> (Null \<in> set (reorderNewOwners current desired)) = (length desired < length current)"
  using reorderNewOwners_closed[OF assms] reorderNewOwners_mset[OF assms]
        reorderNewOwners_Null[OF assms]
  by (intro conjI)

theorem alignment_rule_witness:
  "distinct [''0xA'', ''0xB'', ''0xC''] \<and> distinct [''0xC'', ''0xD''] \<and> [] \<notin> set [''0xC'', ''0xD'']
   \<and> reorderNewOwners [''0xA'', ''0xB'', ''0xC''] [''0xC'', ''0xD''] =
           map (aligned_at [''0xA'', ''0xB'', ''0xC''] [''0xC'', ''0xD''])
               [0 ..< length [''0xA'', ''0xB'', ''0xC'']]
           @ map Str (drop (holes_before [''0xA'', ''0xB'', ''0xC''] [''0xC'', ''0xD'']
                              (length [''0xA'', ''0xB'', ''0xC'']))
                           (remaining_desired [''0xA'', ''0xB'', ''0xC''] [''0xC'', ''0xD'']))
   \<and> mset (filter (\<lambda>v. v \<noteq> Null) (reorderNewOwners [''0xA'', ''0xB'', ''0xC''] [''0xC'', ''0xD'']))
       = mset (map Str [''0xC'', ''0xD''])
   \<and> (Null \<in> set (reorderNewOwners [''0xA'', ''0xB'', ''0xC''] [''0xC'', ''0xD'']))
       = (length [''0xC'', ''0xD''] < length [''0xA'', ''0xB'', ''0xC''])
   \<and> reorderNewOwners [''0xA'', ''0xB'', ''0xC''] [''0xC'', ''0xD''] = [Str ''0xD'', Null, Str ''0xC'']"
proof -
  have d1: "distinct [''0xA'', ''0xB'', ''0xC'']" by simp
  have d2: "distinct [''0xC'', ''0xD'']" by simp
  have n: "[] \<notin> set [''0xC'', ''0xD'']" by simp
  have v: "reorderNewOwners [''0xA'', ''0xB'', ''0xC''] [''0xC'', ''0xD''] = [Str ''0xD'', Null, Str ''0xC'']"
    by code_simp
  note t = alignment_rule[OF d1 d2 n]
  show ?thesis
    by (intro conjI d1 d2 n v t[THEN conjunct1] t[THEN conjunct2, THEN conjunct1]
          t[THEN conjunct2, THEN conjunct2])
qed

text \<open>
  Claim C4 as the specification words it fails when the desired owners are fewer: for
  current owners \<open>[A, B]\<close> and the desired owner \<open>A\<close> the output is \<open>[A, null]\<close>, which is
  not the multiset of the desired owners.
\<close>

theorem alignment_counterexample:
  "mset (reorderNewOwners [''0xA'', ''0xB''] [''0xA'']) \<noteq> mset (map Str [''0xA''])"
proof -
  have "reorderNewOwners [''0xA'', ''0xB''] [''0xA''] = [Str ''0xA'', Null]"
    by code_simp
  then show ?thesis by simp
qed

subsection \<open>The threshold guard\<close>

lemma validateNewOwners_length:
  "validateNewOwners getAddress trim os = Inr v \<Longrightarrow> length v = length os"
  by (induction os arbitrary: v) (auto split: option.splits sum.splits)

text \<open>
  Claim C3, as the code has it. In the revision that checks the threshold,
  \<^verbatim>\<open>generateTransactions\<close> throws, and returns no batch, whenever the target threshold
  (the new threshold if one is given, the fetched one otherwise) is greater than the
  number of new owners. No revision rejects a threshold below 1.
\<close>

theorem threshold_above_owner_count_rejected:
  assumes "newOwners opts = Some os" "chain = Some (raw, currentThreshold)"
      and "int (length os) < (case newThreshold opts of Some t \<Rightarrow> t | None \<Rightarrow> currentThreshold)"
  shows "\<exists>e. generateTransactions_rpc getAddress trim keccak256_hex now chain opts = Some (Inl e)"
  using assms
  by (auto simp: generateTransactions_rpc_def Let_def dest!: validateNewOwners_length
           split: option.splits sum.splits)

theorem threshold_above_owner_count_rejected_witness:
  "newOwners \<lparr>safeAddress = Some ''0x5afe'', newOwners = Some [''0xA''], chainId = Some ''1'',
               newThreshold = Some 2, alchemyApiKey = None, rpcUrl = None\<rparr> = Some [''0xA'']
   \<and> Some ([''0xA''], 1 :: int) = Some ([''0xA''], 1)
   \<and> int (length [''0xA''])
       < (case newThreshold \<lparr>safeAddress = Some ''0x5afe'', newOwners = Some [''0xA''],
               chainId = Some ''1'', newThreshold = Some 2, alchemyApiKey = None, rpcUrl = None\<rparr>
          of Some t \<Rightarrow> t | None \<Rightarrow> 1)
   \<and> (\<exists>e. generateTransactions_rpc Some (\<lambda>s. s) (\<lambda>s. ''h'') 17 (Some ([''0xA''], 1))
          \<lparr>safeAddress = Some ''0x5afe'', newOwners = Some [''0xA''], chainId = Some ''1'',
           newThreshold = Some 2, alchemyApiKey = None, rpcUrl = None\<rparr> = Some (Inl e))
   \<and> generateTransactions_rpc Some (\<lambda>s. s) (\<lambda>s. ''h'') 17 (Some ([''0xA''], 1))
          \<lparr>safeAddress = Some ''0x5afe'', newOwners = Some [''0xA''], chainId = Some ''1'',
           newThreshold = Some 2, alchemyApiKey = None, rpcUrl = None\<rparr> = Some (Inl ThresholdTooBig)"
proof -
  let ?opts = "\<lparr>safeAddress = Some ''0x5afe'', newOwners = Some [''0xA''], chainId = Some ''1'',
               newThreshold = Some 2, alchemyApiKey = None, rpcUrl = None\<rparr>"
  have h1: "newOwners ?opts = Some [''0xA'']" by simp
  have h2: "Some ([''0xA''], 1 :: int) = Some ([''0xA''], 1)" by simp
  have h3: "int (length [''0xA'']) < (case newThreshold ?opts of Some t \<Rightarrow> t | None \<Rightarrow> 1)"
    by simp
  note t = threshold_above_owner_count_rejected[OF h1 h2 h3, of Some "\<lambda>s. s" "\<lambda>s. ''h''" 17]
  have v: "generateTransactions_rpc Some (\<lambda>s. s) (\<lambda>s. ''h'') 17 (Some ([''0xA''], 1)) ?opts
           = Some (Inl ThresholdTooBig)"
    by code_simp
  show ?thesis
    by (intro conjI h1 h2 h3 t v)
qed

text \<open>
  Claim C3 as the specification words it fails at both ends of the range. Below 1: with
  the single owner \<open>0xA\<close> on chain and requested, and the new threshold 0, both revisions
  return a batch (without transactions) instead of throwing. Above the number of owners:
  \<^verbatim>\<open>src/lib/index.js\<close> compares the threshold with nothing; with \<open>0xA\<close> on chain, the two
  new owners \<open>0xA\<close> and \<open>0xB\<close> and the new threshold 5 it returns the batch of the single
  transaction \<open>addOwnerWithThreshold(0xB, "5")\<close>.
\<close>

theorem threshold_out_of_range_counterexample:
  "generateTransactions_rpc Some (\<lambda>s. s) (\<lambda>s. ''h'') 17 (Some ([''0xA''], 1))
     \<lparr>safeAddress = Some ''0x5afe'', newOwners = Some [''0xA''], chainId = Some ''1'',
      newThreshold = Some 0, alchemyApiKey = None, rpcUrl = None\<rparr>
     = Some (Inr (batch_of ''1'' 17 ''0x5afe'' ''0xh'' []))
   \<and> generateTransactions Some (\<lambda>s. s) (\<lambda>s. ''h'') 17 (Some ([''0xA''], 1))
     \<lparr>safeAddress = Some ''0x5afe'', newOwners = Some [''0xA''], chainId = Some ''1'',
      newThreshold = Some 0, alchemyApiKey = Some ''key''\<rparr>
     = Some (Inr (batch_of ''1'' 17 ''0x5afe'' ''0xh'' []))
   \<and> generateTransactions Some (\<lambda>s. s) (\<lambda>s. ''h'') 17 (Some ([''0xA''], 1))
     \<lparr>safeAddress = Some ''0x5afe'', newOwners = Some [''0xA'', ''0xB''], chainId = Some ''1'',
      newThreshold = Some 5, alchemyApiKey = Some ''key''\<rparr>
     = Some (Inr (batch_of ''1'' 17 ''0x5afe'' ''0xh''
                    [createAddOwnerTransaction ''0x5afe'' (Str ''0xB'') 5]))
   \<and> tx_call (createAddOwnerTransaction ''0x5afe'' (Str ''0xB'') 5)
     = (JStr ''addOwnerWithThreshold'',
        JObj [(''owner'', JStr ''0xB''), (''_threshold'', JStr ''5'')])"
proof -
  have 1: "generateTransactions_rpc Some (\<lambda>s. s) (\<lambda>s. ''h'') 17 (Some ([''0xA''], 1))
     \<lparr>safeAddress = Some ''0x5afe'', newOwners = Some [''0xA''], chainId = Some ''1'',
      newThreshold = Some 0, alchemyApiKey = None, rpcUrl = None\<rparr>
     = Some (Inr (batch_of ''1'' 17 ''0x5afe'' ''0xh'' []))"
    by code_simp
  have 2: "generateTransactions Some (\<lambda>s. s) (\<lambda>s. ''h'') 17 (Some ([''0xA''], 1))
     \<lparr>safeAddress = Some ''0x5afe'', newOwners = Some [''0xA''], chainId = Some ''1'',
      newThreshold = Some 0, alchemyApiKey = Some ''key''\<rparr>
     = Some (Inr (batch_of ''1'' 17 ''0x5afe'' ''0xh'' []))"
    by code_simp
  have 3: "generateTransactions Some (\<lambda>s. s) (\<lambda>s. ''h'') 17 (Some ([''0xA''], 1))
     \<lparr>safeAddress = Some ''0x5afe'', newOwners = Some [''0xA'', ''0xB''], chainId = Some ''1'',
      newThreshold = Some 5, alchemyApiKey = Some ''key''\<rparr>
     = Some (Inr (batch_of ''1'' 17 ''0x5afe'' ''0xh''
                    [createAddOwnerTransaction ''0x5afe'' (Str ''0xB'') 5]))"
    by code_simp
  have 4: "tx_call (createAddOwnerTransaction ''0x5afe'' (Str ''0xB'') 5)
     = (JStr ''addOwnerWithThreshold'',
        JObj [(''owner'', JStr ''0xB''), (''_threshold'', JStr ''5'')])"
    by code_simp
  show ?thesis by (intro conjI 1 2 3 4)
qed

subsection \<open>Normalised addresses\<close>

lemma set_foldl_set_add: "set (foldl set_add acc xs) = set acc \<union> set xs"
  by (induction xs arbitrary: acc) auto

lemma set_new_Set [simp]: "set (new_Set xs) = set xs"
  by (simp add: new_Set_def set_foldl_set_add)

lemma align_matching_subset:
  "align_matching current remaining = (r, remaining') \<Longrightarrow>
   set r \<subseteq> insert Null (Str ` set remaining) \<and> set remaining' \<subseteq> set remaining"
proof (induction current arbitrary: remaining r remaining')
  case Nil
  then show ?case by auto
next
  case (Cons owner rest)
  show ?case
  proof (cases "owner \<in> set remaining")
    case True
    obtain r1 rem1 where rec: "align_matching rest (removeAll owner remaining) = (r1, rem1)"
      by (cases "align_matching rest (removeAll owner remaining)")
    from Cons.IH[OF rec] have "set r1 \<subseteq> insert Null (Str ` set remaining)"
        "set rem1 \<subseteq> set remaining" by auto
    with Cons.prems True rec show ?thesis by auto
  next
    case False
    obtain r1 rem1 where rec: "align_matching rest remaining = (r1, rem1)"
      by (cases "align_matching rest remaining")
    from Cons.IH[OF rec] Cons.prems False rec show ?thesis by auto
  qed
qed

lemma fill_placeholders_subset:
  "fill_placeholders rs remaining = (rs', remaining') \<Longrightarrow>
   set rs' \<subseteq> set rs \<union> Str ` set remaining \<and> set remaining' \<subseteq> set remaining"
proof (induction rs arbitrary: remaining rs' remaining')
  case Nil
  then show ?case by auto
next
  case (Cons r rs)
  show ?case
  proof (cases "\<not> truthy r \<and> length remaining > 0")
    case True
    then obtain x xs where rem: "remaining = x # xs" by (cases remaining) auto
    obtain r1 rem1 where rec: "fill_placeholders rs xs = (r1, rem1)"
      by (cases "fill_placeholders rs xs")
    from Cons.IH[OF rec] Cons.prems True rem rec show ?thesis by (auto; blast)
  next
    case False
    obtain r1 rem1 where rec: "fill_placeholders rs remaining = (r1, rem1)"
      by (cases "fill_placeholders rs remaining")
    from Cons.IH[OF rec] Cons.prems False rec show ?thesis by (auto; blast)
  qed
qed

lemma reorderNewOwners_subset:
  "set (reorderNewOwners current desired) \<subseteq> insert Null (Str ` set desired)"
proof -
  obtain r rem where a: "align_matching current (new_Set desired) = (r, rem)"
    by (cases "align_matching current (new_Set desired)")
  obtain r' rem' where f: "fill_placeholders r rem = (r', rem')"
    by (cases "fill_placeholders r rem")
  from align_matching_subset[OF a] fill_placeholders_subset[OF f]
  have "set r' \<subseteq> insert Null (Str ` set desired)" "set rem' \<subseteq> set desired"
    by (simp_all, blast+)
  then show ?thesis by (auto simp: reorderNewOwners_def a f)
qed

lemma backtrack_members:
  "i \<le> length current \<Longrightarrow> j \<le> length aligned \<Longrightarrow>
   backtrack dp current aligned i j ops = Inr res \<Longrightarrow>
   set (olds res) \<subseteq> set (olds ops) \<union> set current \<and> set (news res) \<subseteq> set (news ops) \<union> set aligned"
proof (induction dp current aligned i j ops rule: backtrack.induct)
  case (1 dp current aligned i j ops)
  show ?case
  proof (cases "i > 0 \<or> j > 0")
    case False
    with "1.prems" show ?thesis by (simp add: backtrack.simps)
  next
    case nz: True
    have ci: "i > 0 \<Longrightarrow> current ! (i - 1) \<in> set current" using "1.prems"(1) by auto
    have aj: "j > 0 \<Longrightarrow> aligned ! (j - 1) \<in> set aligned" using "1.prems"(2) by auto
    have b: "i - 1 \<le> length current" "j - 1 \<le> length aligned" using "1.prems" by auto
    consider (m) "i > 0 \<and> j > 0 \<and> Str (current ! (i - 1)) = aligned ! (j - 1)"
      | (s) "\<not> (i > 0 \<and> j > 0 \<and> Str (current ! (i - 1)) = aligned ! (j - 1))"
            "i > 0 \<and> j > 0 \<and> dp ! i ! j = dp ! (i - 1) ! (j - 1) + 1"
      | (a) "\<not> (i > 0 \<and> j > 0 \<and> Str (current ! (i - 1)) = aligned ! (j - 1))"
            "\<not> (i > 0 \<and> j > 0 \<and> dp ! i ! j = dp ! (i - 1) ! (j - 1) + 1)"
            "j > 0 \<and> dp ! i ! j = dp ! i ! (j - 1) + 1"
      | (r) "\<not> (i > 0 \<and> j > 0 \<and> Str (current ! (i - 1)) = aligned ! (j - 1))"
            "\<not> (i > 0 \<and> j > 0 \<and> dp ! i ! j = dp ! (i - 1) ! (j - 1) + 1)"
            "\<not> (j > 0 \<and> dp ! i ! j = dp ! i ! (j - 1) + 1)"
            "i > 0 \<and> dp ! i ! j = dp ! (i - 1) ! j + 1"
      | (e) "\<not> (i > 0 \<and> j > 0 \<and> Str (current ! (i - 1)) = aligned ! (j - 1))"
            "\<not> (i > 0 \<and> j > 0 \<and> dp ! i ! j = dp ! (i - 1) ! (j - 1) + 1)"
            "\<not> (j > 0 \<and> dp ! i ! j = dp ! i ! (j - 1) + 1)"
            "\<not> (i > 0 \<and> dp ! i ! j = dp ! (i - 1) ! j + 1)"
      by blast
    then show ?thesis
    proof cases
      case m
      then have "backtrack dp current aligned (i - 1) (j - 1) ops = Inr res"
        using "1.prems"(3) nz by (subst (asm) backtrack.simps) (auto split: if_splits)
      from "1.IH"(1)[OF nz m b this] show ?thesis by simp
    next
      case s
      then have "backtrack dp current aligned (i - 1) (j - 1)
                   (Swap (current ! (i - 1)) (aligned ! (j - 1)) # ops) = Inr res"
        using "1.prems"(3) nz by (subst (asm) backtrack.simps) (auto split: if_splits)
      from "1.IH"(2)[OF nz s b this] ci aj s show ?thesis by auto
    next
      case a
      then have "backtrack dp current aligned i (j - 1) (Add (aligned ! (j - 1)) # ops) = Inr res"
        using "1.prems"(3) nz by (subst (asm) backtrack.simps) (auto split: if_splits)
      from "1.IH"(3)[OF nz a "1.prems"(1) b(2) this] aj a show ?thesis by auto
    next
      case r
      then have "backtrack dp current aligned (i - 1) j (Remove (current ! (i - 1)) # ops) = Inr res"
        using "1.prems"(3) nz by (subst (asm) backtrack.simps) (auto split: if_splits)
      from "1.IH"(4)[OF nz r b(1) "1.prems"(2) this] ci r show ?thesis by auto
    next
      case e
      then show ?thesis using "1.prems"(3) nz by (subst (asm) backtrack.simps) (auto split: if_splits)
    qed
  qed
qed

lemma calculateEditOperations_members:
  "calculateEditOperations current aligned = Inr ops \<Longrightarrow>
   set (olds ops) \<subseteq> set current \<and> set (news ops) \<subseteq> set aligned"
  using backtrack_members[of "length current" current "length aligned" aligned
          "dp_table current aligned" "[]" ops]
  by (simp add: calculateEditOperations_def)


lemma swap_args [simp]:
  "old_owner_args (createSwapOwnerTransaction safe old new l) = [JStr old]"
  "new_owner_args (createSwapOwnerTransaction safe old new l) = [json_of new]"
  "jget (createSwapOwnerTransaction safe old new l) ''to'' = JStr safe"
  by (simp_all add: old_owner_args_def new_owner_args_def tx_call_def createSwapOwnerTransaction_def)

lemma remove_args [simp]:
  "old_owner_args (createRemoveOwnerTransaction safe old thr l) = [JStr old]"
  "new_owner_args (createRemoveOwnerTransaction safe old thr l) = []"
  "jget (createRemoveOwnerTransaction safe old thr l) ''to'' = JStr safe"
  by (simp_all add: old_owner_args_def new_owner_args_def tx_call_def createRemoveOwnerTransaction_def)

lemma add_args [simp]:
  "old_owner_args (createAddOwnerTransaction safe new thr) = []"
  "new_owner_args (createAddOwnerTransaction safe new thr) = [json_of new]"
  "jget (createAddOwnerTransaction safe new thr) ''to'' = JStr safe"
  by (simp_all add: old_owner_args_def new_owner_args_def tx_call_def createAddOwnerTransaction_def)

lemma change_args [simp]:
  "old_owner_args (createChangeThresholdTransaction safe thr) = []"
  "new_owner_args (createChangeThresholdTransaction safe thr) = []"
  "jget (createChangeThresholdTransaction safe thr) ''to'' = JStr safe"
  by (simp_all add: old_owner_args_def new_owner_args_def tx_call_def createChangeThresholdTransaction_def)

lemma processOperations_args:
  "processOperations safe thr ops txs l h = Some (txs', l', h') \<Longrightarrow>
   concat (map old_owner_args txs') = concat (map old_owner_args txs) @ map JStr (olds ops)
   \<and> concat (map new_owner_args txs') = concat (map new_owner_args txs) @ map json_of (news ops)
   \<and> map (\<lambda>tx. jget tx ''to'') txs' = map (\<lambda>tx. jget tx ''to'') txs @ replicate (length ops) (JStr safe)"
proof (induction ops arbitrary: txs l h)
  case Nil
  then show ?case by simp
next
  case (Cons op ops)
  show ?case
  proof (cases op)
    case (Swap old new)
    with Cons.prems Cons.IH show ?thesis
      by (auto simp: Let_def replicate_app_Cons_same)
  next
    case (Add new)
    with Cons.prems Cons.IH show ?thesis
      by (auto simp: Let_def replicate_app_Cons_same split: option.splits)
  next
    case (Remove old)
    with Cons.prems Cons.IH show ?thesis
      by (auto simp: Let_def replicate_app_Cons_same)
  qed
qed

lemma buildTransactions_args:
  assumes "buildTransactions safe current validated thr cthr = Some (Inr txs)"
  shows "set (concat (map old_owner_args txs)) \<subseteq> JStr ` set current
       \<and> set (concat (map new_owner_args txs)) \<subseteq> insert JNull (JStr ` set validated)
       \<and> (\<forall>tx \<in> set txs. jget tx ''to'' = JStr safe)"
proof -
  obtain ops where ops: "calculateEditOperations current (reorderNewOwners current validated) = Inr ops"
    using assms by (auto simp: buildTransactions_def Let_def split: sum.splits)
  obtain t l h where p: "processOperations safe thr ops [] (buildOwnerLinkedList current SENTINEL_OWNERS) False
                         = Some (t, l, h)"
    using assms ops by (auto simp: buildTransactions_def Let_def split: option.splits)
  have txs: "txs = t \<or> txs = t @ [createChangeThresholdTransaction safe thr]"
    using assms ops p by (auto simp: buildTransactions_def Let_def split: if_splits)
  note a = processOperations_args[OF p]
  note m = calculateEditOperations_members[OF ops]
  have n: "set (news ops) \<subseteq> insert Null (Str ` set validated)"
    using m reorderNewOwners_subset[of current validated] by blast
  have jn: "json_of ` set (news ops) \<subseteq> insert JNull (JStr ` set validated)"
    using n by (auto; force)
  have 1: "set (concat (map old_owner_args t)) \<subseteq> JStr ` set current"
    using a m by auto
  have 2: "set (concat (map new_owner_args t)) \<subseteq> insert JNull (JStr ` set validated)"
    using a jn by auto
  have 3: "\<forall>tx \<in> set t. jget tx ''to'' = JStr safe"
  proof
    fix tx assume "tx \<in> set t"
    then have "jget tx ''to'' \<in> set (map (\<lambda>tx. jget tx ''to'') t)" by auto
    with a show "jget tx ''to'' = JStr safe" by auto
  qed
  from txs 1 2 3 show ?thesis by (auto; blast)
qed

lemma validateNewOwners_Inr:
  "validateNewOwners g trim os = Inr v \<Longrightarrow> map (\<lambda>s. g (trim s)) os = map Some v"
  by (induction os arbitrary: v) (auto split: option.splits sum.splits)

lemma validateNewOwners_invalid:
  "\<exists>s \<in> set os. g (trim s) = None \<Longrightarrow>
   \<exists>a \<in> set os. g (trim a) = None \<and> validateNewOwners g trim os = Inl (InvalidAddress a)"
proof (induction os)
  case Nil
  then show ?case by simp
next
  case (Cons x xs)
  show ?case
  proof (cases "g (trim x)")
    case None
    then show ?thesis by auto
  next
    case (Some a)
    with Cons.prems have "\<exists>s \<in> set xs. g (trim s) = None" by auto
    from Cons.IH[OF this] Some show ?thesis by auto
  qed
qed

lemma validateNewOwners_valid:
  "\<forall>s \<in> set os. g (trim s) \<noteq> None \<Longrightarrow> \<exists>v. validateNewOwners g trim os = Inr v"
  by (induction os) (auto split: option.splits)

lemma validateNewOwners_set:
  "validateNewOwners g trim os = Inr v \<Longrightarrow> set v = normalized (\<lambda>s. g (trim s)) os"
  by (induction os arbitrary: v) (auto simp: normalized_def split: option.splits sum.splits)

lemma normalizeFetched_set:
  "normalizeFetched g raw = Inr cur \<Longrightarrow> set cur = normalized g raw"
  by (induction raw arbitrary: cur) (auto simp: normalized_def split: option.splits sum.splits)

lemma distinct_foldl_set_add: "distinct acc \<Longrightarrow> distinct (foldl set_add acc xs)"
  by (induction xs arbitrary: acc) auto

lemma new_Set_length: "(length (new_Set v) = length v) = distinct v"
proof -
  have d: "distinct (new_Set v)" by (simp add: new_Set_def distinct_foldl_set_add)
  have "length (new_Set v) = card (set v)" using distinct_card[OF d] by simp
  then show ?thesis using card_distinct[of v] distinct_card[of v] by auto
qed

lemma gen_invalid_safe:
  assumes "safeAddress opts = Some sa" "sa \<noteq> []" "newOwners opts = Some os"
      "chainId opts = Some c" "c \<noteq> []" "alchemyApiKey opts = Some k" "k \<noteq> []"
      "getAddress sa = None"
  shows "generateTransactions getAddress trim keccak256_hex now chain opts = Some (Inl (InvalidSafeAddress sa))"
  using assms by (cases sa; cases c; cases k) (simp_all add: generateTransactions_def)

lemma gen_invalid_owner:
  assumes "safeAddress opts = Some sa" "sa \<noteq> []" "newOwners opts = Some os"
      "chainId opts = Some c" "c \<noteq> []" "alchemyApiKey opts = Some k" "k \<noteq> []"
      "getAddress sa = Some sa'" "validateNewOwners getAddress trim os = Inl e"
  shows "generateTransactions getAddress trim keccak256_hex now chain opts = Some (Inl e)"
  using assms by (cases sa; cases c; cases k) (simp_all add: generateTransactions_def)

lemma gen_duplicates:
  assumes "safeAddress opts = Some sa" "sa \<noteq> []" "newOwners opts = Some os"
      "chainId opts = Some c" "c \<noteq> []" "alchemyApiKey opts = Some k" "k \<noteq> []"
      "getAddress sa = Some sa'" "validateNewOwners getAddress trim os = Inr v"
      "normalizeFetched getAddress raw = Inr cur" "\<not> distinct v"
  shows "generateTransactions getAddress trim keccak256_hex now (Some (raw, ct)) opts = Some (Inl DuplicateAddresses)"
  using assms new_Set_length[of v]
  by (cases sa; cases c; cases k) (simp_all add: generateTransactions_def)

lemma gen_success:
  assumes "safeAddress opts = Some sa" "sa \<noteq> []" "newOwners opts = Some os"
      "chainId opts = Some c" "c \<noteq> []" "alchemyApiKey opts = Some k" "k \<noteq> []"
      "generateTransactions getAddress trim keccak256_hex now chain opts = Some (Inr batch)"
  shows "\<exists>sa' raw ct cur v thr txs checksum.
           getAddress sa = Some sa' \<and> chain = Some (raw, ct)
         \<and> normalizeFetched getAddress raw = Inr cur
         \<and> validateNewOwners getAddress trim os = Inr v
         \<and> buildTransactions sa' cur v thr ct = Some (Inr txs)
         \<and> batch = batch_of c now sa' checksum txs"
proof -
  have ng: "\<not> not_given (safeAddress opts)" "\<not> not_given (chainId opts)" "\<not> not_given (alchemyApiKey opts)"
    using assms by simp_all
  from assms(8) ng assms(1,3,4,6) show ?thesis
    by (auto simp: generateTransactions_def Let_def batch_of_def set_meta_checksum_def
             split: option.splits sum.splits if_splits prod.splits)
qed

text \<open>
  What holds of the addresses for every input. Let the required options be given. A safe
  address or a new owner that \<open>getAddress\<close> rejects makes \<^verbatim>\<open>generateTransactions\<close> throw
  whatever the chain answers (the chain state is not used). Two new owners with the same
  normalised form are rejected as duplicates. In a batch that is returned,
  \<open>createdFromSafeAddress\<close> and the target of every transaction are the normalised safe
  address, every owner that leaves is the normalised form of a fetched owner, and every
  owner that enters is the normalised form of a trimmed new owner or is the placeholder
  \<^verbatim>\<open>null\<close>.
\<close>

lemma validation_and_normal_forms:
  assumes "safeAddress opts = Some sa" "sa \<noteq> []" "newOwners opts = Some os"
      "chainId opts = Some c" "c \<noteq> []" "alchemyApiKey opts = Some k" "k \<noteq> []"
  shows
   "(getAddress sa = None \<longrightarrow>
       (\<forall>chain now. generateTransactions getAddress trim keccak256_hex now chain opts
                      = Some (Inl (InvalidSafeAddress sa))))
  \<and> (getAddress sa \<noteq> None \<and> (\<exists>s \<in> set os. getAddress (trim s) = None) \<longrightarrow>
       (\<exists>a \<in> set os. getAddress (trim a) = None \<and>
          (\<forall>chain now. generateTransactions getAddress trim keccak256_hex now chain opts
                         = Some (Inl (InvalidAddress a)))))
  \<and> (\<forall>i j raw ct cur now.
        getAddress sa \<noteq> None \<and> (\<forall>s \<in> set os. getAddress (trim s) \<noteq> None)
        \<and> i < j \<and> j < length os \<and> getAddress (trim (os ! i)) = getAddress (trim (os ! j))
        \<and> normalizeFetched getAddress raw = Inr cur \<longrightarrow>
        generateTransactions getAddress trim keccak256_hex now (Some (raw, ct)) opts
          = Some (Inl DuplicateAddresses))
  \<and> (\<forall>chain now batch.
        generateTransactions getAddress trim keccak256_hex now chain opts = Some (Inr batch) \<longrightarrow>
        (\<exists>sa' raw ct. getAddress sa = Some sa' \<and> chain = Some (raw, ct)
           \<and> jget (jget batch ''meta'') ''createdFromSafeAddress'' = JStr sa'
           \<and> (\<forall>tx \<in> set (transactions_of batch). jget tx ''to'' = JStr sa')
           \<and> set (concat (map old_owner_args (transactions_of batch)))
                \<subseteq> JStr ` normalized getAddress raw
           \<and> set (concat (map new_owner_args (transactions_of batch)))
                \<subseteq> insert JNull (JStr ` normalized (\<lambda>s. getAddress (trim s)) os)))"
proof (intro conjI impI allI)
  fix chain now
  assume "getAddress sa = None"
  then show "generateTransactions getAddress trim keccak256_hex now chain opts
               = Some (Inl (InvalidSafeAddress sa))"
    by (rule gen_invalid_safe[OF assms])
next
  assume a: "getAddress sa \<noteq> None \<and> (\<exists>s \<in> set os. getAddress (trim s) = None)"
  then obtain sa' where sa': "getAddress sa = Some sa'" by auto
  from a validateNewOwners_invalid[of os getAddress trim]
  obtain x where x: "x \<in> set os" "getAddress (trim x) = None"
      "validateNewOwners getAddress trim os = Inl (InvalidAddress x)" by blast
  have "\<forall>chain now. generateTransactions getAddress trim keccak256_hex now chain opts
                      = Some (Inl (InvalidAddress x))"
    using gen_invalid_owner[OF assms sa' x(3)] by simp
  with x show "\<exists>a \<in> set os. getAddress (trim a) = None \<and>
          (\<forall>chain now. generateTransactions getAddress trim keccak256_hex now chain opts
                         = Some (Inl (InvalidAddress a)))" by blast
next
  fix i j raw ct cur now
  assume a: "getAddress sa \<noteq> None \<and> (\<forall>s \<in> set os. getAddress (trim s) \<noteq> None)
        \<and> i < j \<and> j < length os \<and> getAddress (trim (os ! i)) = getAddress (trim (os ! j))
        \<and> normalizeFetched getAddress raw = Inr cur"
  then obtain sa' where sa': "getAddress sa = Some sa'" by auto
  from a obtain v where v: "validateNewOwners getAddress trim os = Inr v"
    using validateNewOwners_valid[of os getAddress trim] by blast
  have m: "map (\<lambda>s. getAddress (trim s)) os = map Some v"
    by (rule validateNewOwners_Inr[OF v])
  have len: "length v = length os" using m by (metis length_map)
  have "Some (v ! i) = getAddress (trim (os ! i))" "Some (v ! j) = getAddress (trim (os ! j))"
    using m a len by (metis nth_map less_trans)+
  then have "Some (v ! i) = Some (v ! j)" using a by metis
  then have "v ! i = v ! j" by simp
  moreover have "i < length v" "j < length v" "i \<noteq> j" using a len by auto
  ultimately have nd: "\<not> distinct v" unfolding distinct_conv_nth by blast
  from a have nf: "normalizeFetched getAddress raw = Inr cur" by simp
  show "generateTransactions getAddress trim keccak256_hex now (Some (raw, ct)) opts
          = Some (Inl DuplicateAddresses)"
    by (rule gen_duplicates[OF assms sa' v nf nd])
next
  fix chain now batch
  assume "generateTransactions getAddress trim keccak256_hex now chain opts = Some (Inr batch)"
  from gen_success[OF assms this]
  obtain sa' raw ct cur v thr txs checksum where s:
      "getAddress sa = Some sa'" "chain = Some (raw, ct)"
      "normalizeFetched getAddress raw = Inr cur"
      "validateNewOwners getAddress trim os = Inr v"
      "buildTransactions sa' cur v thr ct = Some (Inr txs)"
      "batch = batch_of c now sa' checksum txs" by blast
  have t: "transactions_of batch = txs"
    by (simp add: s(6) batch_of_def transactions_of_def)
  have cf: "jget (jget batch ''meta'') ''createdFromSafeAddress'' = JStr sa'"
    by (simp add: s(6) batch_of_def)
  note b = buildTransactions_args[OF s(5)]
  have b1: "\<forall>tx \<in> set (transactions_of batch). jget tx ''to'' = JStr sa'"
    unfolding t using b by (elim conjE)
  have b2: "set (concat (map old_owner_args (transactions_of batch))) \<subseteq> JStr ` normalized getAddress raw"
    unfolding t normalizeFetched_set[OF s(3), symmetric] using b by (elim conjE)
  have b3: "set (concat (map new_owner_args (transactions_of batch)))
                \<subseteq> insert JNull (JStr ` normalized (\<lambda>s. getAddress (trim s)) os)"
    unfolding t validateNewOwners_set[OF s(4), symmetric] using b by (elim conjE)
  show "\<exists>sa' raw ct. getAddress sa = Some sa' \<and> chain = Some (raw, ct)
           \<and> jget (jget batch ''meta'') ''createdFromSafeAddress'' = JStr sa'
           \<and> (\<forall>tx \<in> set (transactions_of batch). jget tx ''to'' = JStr sa')
           \<and> set (concat (map old_owner_args (transactions_of batch)))
                \<subseteq> JStr ` normalized getAddress raw
           \<and> set (concat (map new_owner_args (transactions_of batch)))
                \<subseteq> insert JNull (JStr ` normalized (\<lambda>s. getAddress (trim s)) os)"
    by (intro exI conjI) (rule s(1) s(2) cf b1 b2 b3)+
qed

text \<open>
  Claim C10 at a desired set smaller than the current one. The owners \<open>0xa\<close>, \<open>0xb\<close>,
  \<open>0xc\<close> are on chain and the only new owner is \<open>0xa\<close>, given with blanks around it;
  \<open>getAddress\<close> writes the letter after \<open>0x\<close> in upper case. The batch is
  \<open>swapOwner(0xA, 0xB, null)\<close>, \<open>swapOwner("null", 0xC, null)\<close>: the \<open>newOwner\<close> of both
  transactions is the placeholder \<^verbatim>\<open>null\<close> and the \<open>prevOwner\<close> of the second one is the
  string \<^verbatim>\<open>"null"\<close>, and neither is the normalised form of an input string.
\<close>

theorem placeholder_among_owner_arguments:
  "batch_calls (generateTransactions
      (\<lambda>s. if s = ''0xa'' then Some ''0xA'' else if s = ''0xb'' then Some ''0xB''
           else if s = ''0xc'' then Some ''0xC''
           else if s = ''0x5afe'' then Some ''0x5aFE'' else None)
      (\<lambda>s. if s = '' 0xa '' then ''0xa'' else s)
      (\<lambda>s. ''h'') 17 (Some ([''0xa'', ''0xb'', ''0xc''], 1))
      \<lparr>safeAddress = Some ''0x5afe'', newOwners = Some ['' 0xa ''], chainId = Some ''1'',
       newThreshold = None, alchemyApiKey = Some ''key''\<rparr>)
     = [(JStr ''swapOwner'',
         JObj [(''prevOwner'', JStr ''0xA''), (''oldOwner'', JStr ''0xB''), (''newOwner'', JNull)]),
        (JStr ''swapOwner'',
         JObj [(''prevOwner'', JStr ''null''), (''oldOwner'', JStr ''0xC''), (''newOwner'', JNull)])]
   \<and> (\<forall>s. (if s = ''0xa'' then Some ''0xA'' else if s = ''0xb'' then Some ''0xB''
            else if s = ''0xc'' then Some ''0xC''
            else if s = ''0x5afe'' then Some ''0x5aFE'' else None) \<noteq> Some ''null'')"
proof -
  have 1: "batch_calls (generateTransactions
      (\<lambda>s. if s = ''0xa'' then Some ''0xA'' else if s = ''0xb'' then Some ''0xB''
           else if s = ''0xc'' then Some ''0xC''
           else if s = ''0x5afe'' then Some ''0x5aFE'' else None)
      (\<lambda>s. if s = '' 0xa '' then ''0xa'' else s)
      (\<lambda>s. ''h'') 17 (Some ([''0xa'', ''0xb'', ''0xc''], 1))
      \<lparr>safeAddress = Some ''0x5afe'', newOwners = Some ['' 0xa ''], chainId = Some ''1'',
       newThreshold = None, alchemyApiKey = Some ''key''\<rparr>)
     = [(JStr ''swapOwner'',
         JObj [(''prevOwner'', JStr ''0xA''), (''oldOwner'', JStr ''0xB''), (''newOwner'', JNull)]),
        (JStr ''swapOwner'',
         JObj [(''prevOwner'', JStr ''null''), (''oldOwner'', JStr ''0xC''), (''newOwner'', JNull)])]"
    by code_simp
  have 2: "\<forall>s. (if s = ''0xa'' then Some ''0xA'' else if s = ''0xb'' then Some ''0xB''
            else if s = ''0xc'' then Some ''0xC''
            else if s = ''0x5afe'' then Some ''0x5aFE'' else None) \<noteq> Some ''null''"
    by simp
  show ?thesis by (intro conjI 1 2)
qed

subsection \<open>The simulated linked list\<close>

text \<open>
  Claim C6 at a desired set smaller than the current one. For current owners
  \<open>[A, B, C]\<close> and the desired owner \<open>A\<close> the operations are swap \<open>B\<close> for \<^verbatim>\<open>null\<close> and swap
  \<open>C\<close> for \<^verbatim>\<open>null\<close>. After the first one the owner sequence is \<open>[A, null, C]\<close>, in which
  the predecessor of \<open>C\<close> is the entry \<^verbatim>\<open>null\<close>. The second transaction carries the string
  \<^verbatim>\<open>"null"\<close> as its \<open>prevOwner\<close>: the key under which \<^verbatim>\<open>updateOwnerLinkedList\<close> stored the
  successor of the placeholder. It is neither the sentinel nor an entry of the sequence.
  Where no placeholder is involved the values are the true predecessors: for the desired
  owners \<open>X, C, Y, Z\<close> the operations are swap \<open>A\<close> for \<open>X\<close>, swap \<open>B\<close> for \<open>Y\<close> and add
  \<open>Z\<close>, and the second swap carries \<open>X\<close>, the predecessor of \<open>B\<close> after the first swap.
\<close>

theorem prevOwner_after_placeholder:
  "calculateEditOperations [''0xA'', ''0xB'', ''0xC'']
       (reorderNewOwners [''0xA'', ''0xB'', ''0xC''] [''0xA''])
     = Inr [Swap ''0xB'' Null, Swap ''0xC'' Null]
   \<and> calls_of (buildTransactions ''0x5afe'' [''0xA'', ''0xB'', ''0xC''] [''0xA''] 1 1) =
       [(JStr ''swapOwner'',
         JObj [(''prevOwner'', JStr ''0xA''), (''oldOwner'', JStr ''0xB''), (''newOwner'', JNull)]),
        (JStr ''swapOwner'',
         JObj [(''prevOwner'', JStr ''null''), (''oldOwner'', JStr ''0xC''), (''newOwner'', JNull)])]
   \<and> owners_after [Str ''0xA'', Str ''0xB'', Str ''0xC''] [Swap ''0xB'' Null]
     = [Str ''0xA'', Null, Str ''0xC'']
   \<and> true_prevOwners [Str ''0xA'', Str ''0xB'', Str ''0xC''] [Swap ''0xB'' Null, Swap ''0xC'' Null]
     = [JStr ''0xA'', JNull]
   \<and> map (\<lambda>c. jget (snd c) ''prevOwner'')
         (calls_of (buildTransactions ''0x5afe'' [''0xA'', ''0xB'', ''0xC''] [''0xA''] 1 1))
     \<noteq> true_prevOwners [Str ''0xA'', Str ''0xB'', Str ''0xC''] [Swap ''0xB'' Null, Swap ''0xC'' Null]
   \<and> Str ''null'' \<notin> set (Str SENTINEL_OWNERS
                            # owners_after [Str ''0xA'', Str ''0xB'', Str ''0xC''] [Swap ''0xB'' Null])
   \<and> calculateEditOperations [''0xA'', ''0xB'', ''0xC'']
       (reorderNewOwners [''0xA'', ''0xB'', ''0xC''] [''0xX'', ''0xC'', ''0xY'', ''0xZ''])
     = Inr [Swap ''0xA'' (Str ''0xX''), Swap ''0xB'' (Str ''0xY''), Add (Str ''0xZ'')]
   \<and> map (\<lambda>c. jget (snd c) ''prevOwner'')
         (calls_of (buildTransactions ''0x5afe'' [''0xA'', ''0xB'', ''0xC'']
                      [''0xX'', ''0xC'', ''0xY'', ''0xZ''] 1 1))
     = [JStr SENTINEL_OWNERS, JStr ''0xX'', JUndefined]
   \<and> true_prevOwners [Str ''0xA'', Str ''0xB'', Str ''0xC'']
         [Swap ''0xA'' (Str ''0xX''), Swap ''0xB'' (Str ''0xY''), Add (Str ''0xZ'')]
     = [JStr SENTINEL_OWNERS, JStr ''0xX'', JUndefined]"
proof -
  have 1: "calculateEditOperations [''0xA'', ''0xB'', ''0xC'']
       (reorderNewOwners [''0xA'', ''0xB'', ''0xC''] [''0xA''])
     = Inr [Swap ''0xB'' Null, Swap ''0xC'' Null]"
    by code_simp
  have 2: "calls_of (buildTransactions ''0x5afe'' [''0xA'', ''0xB'', ''0xC''] [''0xA''] 1 1) =
       [(JStr ''swapOwner'',
         JObj [(''prevOwner'', JStr ''0xA''), (''oldOwner'', JStr ''0xB''), (''newOwner'', JNull)]),
        (JStr ''swapOwner'',
         JObj [(''prevOwner'', JStr ''null''), (''oldOwner'', JStr ''0xC''), (''newOwner'', JNull)])]"
    by code_simp
  have 3: "owners_after [Str ''0xA'', Str ''0xB'', Str ''0xC''] [Swap ''0xB'' Null]
     = [Str ''0xA'', Null, Str ''0xC'']"
    by code_simp
  have 4: "true_prevOwners [Str ''0xA'', Str ''0xB'', Str ''0xC''] [Swap ''0xB'' Null, Swap ''0xC'' Null]
     = [JStr ''0xA'', JNull]"
    by code_simp
  have 5: "map (\<lambda>c. jget (snd c) ''prevOwner'')
         (calls_of (buildTransactions ''0x5afe'' [''0xA'', ''0xB'', ''0xC''] [''0xA''] 1 1))
     \<noteq> true_prevOwners [Str ''0xA'', Str ''0xB'', Str ''0xC''] [Swap ''0xB'' Null, Swap ''0xC'' Null]"
    unfolding 2 4 by simp
  have 6: "Str ''null'' \<notin> set (Str SENTINEL_OWNERS
                            # owners_after [Str ''0xA'', Str ''0xB'', Str ''0xC''] [Swap ''0xB'' Null])"
    unfolding 3 by (simp add: SENTINEL_OWNERS_def)
  have 7: "calculateEditOperations [''0xA'', ''0xB'', ''0xC'']
       (reorderNewOwners [''0xA'', ''0xB'', ''0xC''] [''0xX'', ''0xC'', ''0xY'', ''0xZ''])
     = Inr [Swap ''0xA'' (Str ''0xX''), Swap ''0xB'' (Str ''0xY''), Add (Str ''0xZ'')]"
    by code_simp
  have 8: "map (\<lambda>c. jget (snd c) ''prevOwner'')
         (calls_of (buildTransactions ''0x5afe'' [''0xA'', ''0xB'', ''0xC'']
                      [''0xX'', ''0xC'', ''0xY'', ''0xZ''] 1 1))
     = [JStr SENTINEL_OWNERS, JStr ''0xX'', JUndefined]"
    by code_simp
  have 9: "true_prevOwners [Str ''0xA'', Str ''0xB'', Str ''0xC'']
         [Swap ''0xA'' (Str ''0xX''), Swap ''0xB'' (Str ''0xY''), Add (Str ''0xZ'')]
     = [JStr SENTINEL_OWNERS, JStr ''0xX'', JUndefined]"
    by code_simp
  show ?thesis by (intro conjI 1 2 3 4 5 6 7 8 9)
qed

text \<open>
  Claim C7 at a desired set smaller than the current one. For current owners
  \<open>[A, B, C, D]\<close> and the desired owners \<open>A, C\<close> the operations are swap \<open>B\<close> for \<^verbatim>\<open>null\<close>
  and swap \<open>D\<close> for \<^verbatim>\<open>null\<close>. After the first one the successor of \<open>A\<close> in the simulated
  list is \<^verbatim>\<open>null\<close>. After the second one the list is sentinel \<open>\<rightarrow>\<close> \<open>A\<close> \<open>\<rightarrow>\<close> \<^verbatim>\<open>null\<close>,
  \<open>C\<close> \<open>\<rightarrow>\<close> \<^verbatim>\<open>null\<close>, \<^verbatim>\<open>"null"\<close> \<open>\<rightarrow>\<close> sentinel: no entry has the remaining owner \<open>C\<close> as its
  successor, so no walk from the sentinel visits it; the walk of \<^verbatim>\<open>getLastOwner\<close> stops
  at \<open>A\<close>, and the chain of successors that are addresses does not return to the
  sentinel. On the list as built from the current owners the walk gives \<open>A, B, C, D\<close>,
  and where no placeholder is involved it gives the owners after the operations: for
  current owners \<open>[A, B, C]\<close> and the operations swap \<open>A\<close> for \<open>X\<close>, swap \<open>B\<close> for \<open>Y\<close>,
  add \<open>Z\<close> it gives \<open>X, Y, C, Z\<close>.
\<close>

theorem walk_after_placeholder:
  "calculateEditOperations [''0xA'', ''0xB'', ''0xC'', ''0xD'']
       (reorderNewOwners [''0xA'', ''0xB'', ''0xC'', ''0xD''] [''0xA'', ''0xC''])
     = Inr [Swap ''0xB'' Null, Swap ''0xD'' Null]
   \<and> map_option (fst \<circ> snd)
       (processOperations ''0x5afe'' 1 [Swap ''0xB'' Null] []
          (buildOwnerLinkedList [''0xA'', ''0xB'', ''0xC'', ''0xD''] SENTINEL_OWNERS) False)
     = Some [(SENTINEL_OWNERS, Str ''0xA''), (''0xA'', Null), (''0xC'', Str ''0xD''),
             (''0xD'', Str SENTINEL_OWNERS), (''null'', Str ''0xC'')]
   \<and> map_option (fst \<circ> snd)
       (processOperations ''0x5afe'' 1 [Swap ''0xB'' Null, Swap ''0xD'' Null] []
          (buildOwnerLinkedList [''0xA'', ''0xB'', ''0xC'', ''0xD''] SENTINEL_OWNERS) False)
     = Some [(SENTINEL_OWNERS, Str ''0xA''), (''0xA'', Null), (''0xC'', Null),
             (''null'', Str SENTINEL_OWNERS)]
   \<and> owners_after [Str ''0xA'', Str ''0xB'', Str ''0xC'', Str ''0xD'']
         [Swap ''0xB'' Null, Swap ''0xD'' Null]
     = [Str ''0xA'', Null, Str ''0xC'', Null]
   \<and> getPrevOwner ''0xC''
        [(SENTINEL_OWNERS, Str ''0xA''), (''0xA'', Null), (''0xC'', Null),
         (''null'', Str SENTINEL_OWNERS)] = Null
   \<and> getLastOwner
        [(SENTINEL_OWNERS, Str ''0xA''), (''0xA'', Null), (''0xC'', Null),
         (''null'', Str SENTINEL_OWNERS)] SENTINEL_OWNERS SENTINEL_OWNERS = Some ''0xA''
   \<and> traverse
        [(SENTINEL_OWNERS, Str ''0xA''), (''0xA'', Null), (''0xC'', Null),
         (''null'', Str SENTINEL_OWNERS)] SENTINEL_OWNERS = None
   \<and> traverse (buildOwnerLinkedList [''0xA'', ''0xB'', ''0xC'', ''0xD''] SENTINEL_OWNERS)
        SENTINEL_OWNERS = Some [Str ''0xA'', Str ''0xB'', Str ''0xC'', Str ''0xD'']
   \<and> map_option (fst \<circ> snd)
       (processOperations ''0x5afe'' 1
          [Swap ''0xA'' (Str ''0xX''), Swap ''0xB'' (Str ''0xY''), Add (Str ''0xZ'')] []
          (buildOwnerLinkedList [''0xA'', ''0xB'', ''0xC''] SENTINEL_OWNERS) False)
     = Some [(SENTINEL_OWNERS, Str ''0xX''), (''0xC'', Str ''0xZ''), (''0xX'', Str ''0xY''),
             (''0xY'', Str ''0xC''), (''0xZ'', Str SENTINEL_OWNERS)]
   \<and> traverse [(SENTINEL_OWNERS, Str ''0xX''), (''0xC'', Str ''0xZ''), (''0xX'', Str ''0xY''),
                (''0xY'', Str ''0xC''), (''0xZ'', Str SENTINEL_OWNERS)] SENTINEL_OWNERS
     = Some (owners_after [Str ''0xA'', Str ''0xB'', Str ''0xC'']
               [Swap ''0xA'' (Str ''0xX''), Swap ''0xB'' (Str ''0xY''), Add (Str ''0xZ'')])"
proof -
  have 1: "calculateEditOperations [''0xA'', ''0xB'', ''0xC'', ''0xD'']
       (reorderNewOwners [''0xA'', ''0xB'', ''0xC'', ''0xD''] [''0xA'', ''0xC''])
     = Inr [Swap ''0xB'' Null, Swap ''0xD'' Null]"
    by code_simp
  have 2: "map_option (fst \<circ> snd)
       (processOperations ''0x5afe'' 1 [Swap ''0xB'' Null] []
          (buildOwnerLinkedList [''0xA'', ''0xB'', ''0xC'', ''0xD''] SENTINEL_OWNERS) False)
     = Some [(SENTINEL_OWNERS, Str ''0xA''), (''0xA'', Null), (''0xC'', Str ''0xD''),
             (''0xD'', Str SENTINEL_OWNERS), (''null'', Str ''0xC'')]"
    by code_simp
  have 3: "map_option (fst \<circ> snd)
       (processOperations ''0x5afe'' 1 [Swap ''0xB'' Null, Swap ''0xD'' Null] []
          (buildOwnerLinkedList [''0xA'', ''0xB'', ''0xC'', ''0xD''] SENTINEL_OWNERS) False)
     = Some [(SENTINEL_OWNERS, Str ''0xA''), (''0xA'', Null), (''0xC'', Null),
             (''null'', Str SENTINEL_OWNERS)]"
    by code_simp
  have 10: "owners_after [Str ''0xA'', Str ''0xB'', Str ''0xC'', Str ''0xD'']
         [Swap ''0xB'' Null, Swap ''0xD'' Null]
     = [Str ''0xA'', Null, Str ''0xC'', Null]"
    by code_simp
  have 4: "getPrevOwner ''0xC''
        [(SENTINEL_OWNERS, Str ''0xA''), (''0xA'', Null), (''0xC'', Null),
         (''null'', Str SENTINEL_OWNERS)] = Null"
    by code_simp
  have 5: "getLastOwner
        [(SENTINEL_OWNERS, Str ''0xA''), (''0xA'', Null), (''0xC'', Null),
         (''null'', Str SENTINEL_OWNERS)] SENTINEL_OWNERS SENTINEL_OWNERS = Some ''0xA''"
    by code_simp
  have 6: "traverse
        [(SENTINEL_OWNERS, Str ''0xA''), (''0xA'', Null), (''0xC'', Null),
         (''null'', Str SENTINEL_OWNERS)] SENTINEL_OWNERS = None"
    by code_simp
  have 7: "traverse (buildOwnerLinkedList [''0xA'', ''0xB'', ''0xC'', ''0xD''] SENTINEL_OWNERS)
        SENTINEL_OWNERS = Some [Str ''0xA'', Str ''0xB'', Str ''0xC'', Str ''0xD'']"
    by code_simp
  have 8: "map_option (fst \<circ> snd)
       (processOperations ''0x5afe'' 1
          [Swap ''0xA'' (Str ''0xX''), Swap ''0xB'' (Str ''0xY''), Add (Str ''0xZ'')] []
          (buildOwnerLinkedList [''0xA'', ''0xB'', ''0xC''] SENTINEL_OWNERS) False)
     = Some [(SENTINEL_OWNERS, Str ''0xX''), (''0xC'', Str ''0xZ''), (''0xX'', Str ''0xY''),
             (''0xY'', Str ''0xC''), (''0xZ'', Str SENTINEL_OWNERS)]"
    by code_simp
  have 9: "traverse [(SENTINEL_OWNERS, Str ''0xX''), (''0xC'', Str ''0xZ''), (''0xX'', Str ''0xY''),
                (''0xY'', Str ''0xC''), (''0xZ'', Str SENTINEL_OWNERS)] SENTINEL_OWNERS
     = Some (owners_after [Str ''0xA'', Str ''0xB'', Str ''0xC'']
               [Swap ''0xA'' (Str ''0xX''), Swap ''0xB'' (Str ''0xY''), Add (Str ''0xZ'')])"
    by code_simp
  show ?thesis by (intro conjI 1 2 3 10 4 5 6 7 8 9)
qed

end
